theory Spec2Isabelle
  imports Complex_Main
begin

section \<open>Numbers and errors\<close>

text \<open>
  The NumPy arrays of the shapes layer hold float64 values. They are modelled as exact
  reals extended with the three special values of IEEE arithmetic: finite values do not
  round or overflow and there is one unsigned zero. Division keeps NumPy's behaviour at
  a zero divisor: \<open>0/0\<close> is NaN and \<open>x/0\<close> is an infinity (NumPy warns, it never raises).
  Every comparison with NaN is false.
\<close>

datatype fl = Fin real | PInf | NInf | NaN

fun fneg :: "fl \<Rightarrow> fl" where
  "fneg (Fin a) = Fin (- a)"
| "fneg PInf = NInf"
| "fneg NInf = PInf"
| "fneg NaN = NaN"

fun fadd :: "fl \<Rightarrow> fl \<Rightarrow> fl" where
  "fadd (Fin a) (Fin b) = Fin (a + b)"
| "fadd NaN _ = NaN"
| "fadd _ NaN = NaN"
| "fadd PInf NInf = NaN"
| "fadd NInf PInf = NaN"
| "fadd PInf _ = PInf"
| "fadd _ PInf = PInf"
| "fadd NInf _ = NInf"
| "fadd _ NInf = NInf"

definition fsub :: "fl \<Rightarrow> fl \<Rightarrow> fl" where
  "fsub a b = fadd a (fneg b)"

definition inf_of_sign :: "bool \<Rightarrow> fl" where
  "inf_of_sign pos = (if pos then PInf else NInf)"

fun fmul :: "fl \<Rightarrow> fl \<Rightarrow> fl" where
  "fmul (Fin a) (Fin b) = Fin (a * b)"
| "fmul NaN _ = NaN"
| "fmul _ NaN = NaN"
| "fmul (Fin a) PInf = (if a = 0 then NaN else inf_of_sign (0 < a))"
| "fmul (Fin a) NInf = (if a = 0 then NaN else inf_of_sign (a < 0))"
| "fmul PInf (Fin b) = (if b = 0 then NaN else inf_of_sign (0 < b))"
| "fmul NInf (Fin b) = (if b = 0 then NaN else inf_of_sign (b < 0))"
| "fmul PInf PInf = PInf"
| "fmul NInf NInf = PInf"
| "fmul PInf NInf = NInf"
| "fmul NInf PInf = NInf"

fun fdiv :: "fl \<Rightarrow> fl \<Rightarrow> fl" where
  "fdiv (Fin a) (Fin b) =
     (if b \<noteq> 0 then Fin (a / b) else if a = 0 then NaN else inf_of_sign (0 < a))"
| "fdiv NaN _ = NaN"
| "fdiv _ NaN = NaN"
| "fdiv (Fin a) PInf = Fin 0"
| "fdiv (Fin a) NInf = Fin 0"
| "fdiv PInf (Fin b) = inf_of_sign (0 \<le> b)"
| "fdiv NInf (Fin b) = inf_of_sign (b < 0)"
| "fdiv PInf PInf = NaN"
| "fdiv PInf NInf = NaN"
| "fdiv NInf PInf = NaN"
| "fdiv NInf NInf = NaN"

fun fsqrt :: "fl \<Rightarrow> fl" where
  "fsqrt (Fin a) = (if a < 0 then NaN else Fin (sqrt a))"
| "fsqrt PInf = PInf"
| "fsqrt NInf = NaN"
| "fsqrt NaN = NaN"

text \<open>\<open>np.sign\<close>: \<open>-1\<close>, \<open>0\<close> or \<open>1\<close>, and NaN for NaN.\<close>

fun fsign :: "fl \<Rightarrow> fl" where
  "fsign (Fin a) = Fin (sgn a)"
| "fsign PInf = Fin 1"
| "fsign NInf = Fin (- 1)"
| "fsign NaN = NaN"

fun fle :: "fl \<Rightarrow> fl \<Rightarrow> bool" where
  "fle (Fin a) (Fin b) = (a \<le> b)"
| "fle NaN _ = False"
| "fle _ NaN = False"
| "fle NInf _ = True"
| "fle _ PInf = True"
| "fle PInf _ = False"
| "fle _ NInf = False"

fun flt :: "fl \<Rightarrow> fl \<Rightarrow> bool" where
  "flt (Fin a) (Fin b) = (a < b)"
| "flt NaN _ = False"
| "flt _ NaN = False"
| "flt PInf _ = False"
| "flt _ NInf = False"
| "flt NInf _ = True"
| "flt _ PInf = True"

definition fgt :: "fl \<Rightarrow> fl \<Rightarrow> bool" where
  "fgt a b = flt b a"

definition fge :: "fl \<Rightarrow> fl \<Rightarrow> bool" where
  "fge a b = fle b a"

text \<open>The exceptions the modelled Python code can raise.\<close>

datatype error = ValueError | IndexError
section \<open>The shapes layer (model.py)\<close>

type_synonym vec = "fl \<times> fl"

type_synonym tri = "int \<times> int \<times> int"

text \<open>
  The attributes of \<open>self.data\<close> that \<open>Shapes\<close> reads. Its class, \<open>ShapeList\<close> of the module
  \<open>shape_list\<close>, is not among the sources, so only the arrays themselves are modelled:
  \<open>d_vertices\<close> and \<open>d_index\<close> are \<open>_vertices\<close> and \<open>_index\<close>, the mesh arrays are
  \<open>_mesh_vertices\<close>, \<open>_mesh_triangles\<close> and \<open>_mesh_triangles_index\<close> (shape index and mesh
  type of every triangle), \<open>d_z_index\<close> is \<open>_z_index\<close> (the z value of every shape) and
  \<open>d_z_order\<close> is \<open>_z_order\<close>. \<open>d_shape_opacity\<close> holds the opacity of every element of
  \<open>data.shapes\<close>.
\<close>

record layer_data =
  d_vertices :: "vec list"
  d_index :: "nat list"
  d_mesh_vertices :: "vec list"
  d_mesh_triangles :: "tri list"
  d_mesh_triangles_index :: "(nat \<times> nat) list"
  d_z_index :: "int list"
  d_z_order :: "nat list"
  d_shape_opacity :: "fl list"

text \<open>
  The attributes of the layer itself. A pair such as \<open>[None, None]\<close> is a pair of options,
  \<open>None\<close> for a box or a point is \<open>None\<close>.
\<close>

record layer =
  data :: layer_data
  mode :: string
  cursor :: string
  interactive :: bool
  help_text :: string
  status :: string
  opacity :: fl
  apply_all :: bool
  highlight :: bool
  selected_shapes :: "nat list"
  selected_shapes_stored :: "nat list"
  selected_box :: "vec list option"
  hover_shapes :: "nat option \<times> nat option"
  hover_shapes_stored :: "nat option \<times> nat option"
  drag_start :: "vec option"
  drag_box :: "vec list option"
  fixed_vertex :: "vec option"
  selected_vertex :: "nat option \<times> nat option"
  is_moving :: bool
  ready_to_create :: bool
  creating :: bool

subsection \<open>The opacity property\<close>

text \<open>
  Modelled from the spec: \<open>ShapeList.update_opacity\<close> is not among the sources. Like the
  collection's other \<open>update_\<close> operations, it writes the value to the shape at \<open>index\<close>;
  an index outside \<open>shapes\<close> is Python's IndexError.
\<close>

definition update_opacity :: "nat \<Rightarrow> fl \<Rightarrow> layer_data \<Rightarrow> error + layer_data" where
  "update_opacity i v d =
     (if i < length (d_shape_opacity d)
      then Inr (d\<lparr>d_shape_opacity := (d_shape_opacity d)[i := v]\<rparr>)
      else Inl IndexError)"

text \<open>
  The loop \<open>for i in index: self.data.update_opacity(i, opacity)\<close>. A raised exception
  leaves the data as the completed iterations made it, so the result is the data together
  with the exception, if any.
\<close>

fun update_each :: "nat list \<Rightarrow> fl \<Rightarrow> layer_data \<Rightarrow> error option \<times> layer_data" where
  "update_each [] v d = (None, d)"
| "update_each (i # rest) v d =
     (case update_opacity i v d of
        Inl e \<Rightarrow> (Some e, d)
      | Inr d' \<Rightarrow> update_each rest v d')"

text \<open>
  The setter of \<open>Shapes.opacity\<close>. The test \<open>not 0.0 <= opacity <= 1.0\<close> comes first;
  \<open>refresh\<close> and the event emitter belong to the base layer and the canvas and do not
  touch this state.
\<close>

definition set_opacity :: "fl \<Rightarrow> layer \<Rightarrow> error option \<times> layer" where
  "set_opacity v s =
     (if \<not> (fle (Fin 0) v \<and> fle v (Fin 1)) then (Some ValueError, s)
      else
        let s1 = s\<lparr>opacity := v\<rparr>;
            index = (if apply_all s1 then [0..<length (d_shape_opacity (data s1))]
                     else selected_shapes s1);
            (e, d) = update_each index v (data s1)
        in (e, s1\<lparr>data := d\<rparr>))"

subsection \<open>The mode property\<close>

text \<open>
  The \<open>if\<close>/\<open>elif\<close> chain of the mode setter assigns cursor, interactivity and help
  text per mode; any other string raises ValueError.
\<close>

definition mode_settings :: "string \<Rightarrow> (string \<times> bool \<times> string) option" where
  "mode_settings m =
     (if m = ''select'' then
        Some (''pointing'', False, ''hold <space> to pan/zoom, press <delete> to remove selected'')
      else if m = ''direct'' then
        Some (''pointing'', False, ''hold <space> to pan/zoom, press <delete> to remove selected'')
      else if m = ''pan/zoom'' then Some (''standard'', True, '''')
      else if m = ''add_rectangle'' then Some (''cross'', False, ''hold <space> to pan/zoom'')
      else if m = ''add_ellipse'' then Some (''cross'', False, ''hold <space> to pan/zoom'')
      else if m = ''add_line'' then Some (''cross'', False, ''hold <space> to pan/zoom'')
      else if m = ''add_path'' then Some (''cross'', False, ''hold <space> to pan/zoom'')
      else if m = ''add_polygon'' then Some (''cross'', False, ''hold <space> to pan/zoom'')
      else if m = ''vertex_insert'' then Some (''cross'', False, ''hold <space> to pan/zoom'')
      else if m = ''vertex_remove'' then Some (''cross'', False, ''hold <space> to pan/zoom'')
      else None)"

definition vertex_editing :: "string \<Rightarrow> bool" where
  "vertex_editing m \<longleftrightarrow>
     m = ''vertex_insert'' \<or> m = ''vertex_remove'' \<or> m = ''direct'' \<or> m = ''select''"

text \<open>
  \<open>self.data._vertices[self.data._index == index]\<close>: the vertices of one shape. Against
  \<open>None\<close> the comparison selects nothing; a mask of another length than the array is an
  IndexError.
\<close>

definition vertices_of :: "nat option \<Rightarrow> layer_data \<Rightarrow> error + vec list" where
  "vertices_of index d =
     (case index of
        None \<Rightarrow> Inr []
      | Some i \<Rightarrow>
          if length (d_index d) \<noteq> length (d_vertices d) then Inl IndexError
          else Inr (map fst (filter (\<lambda>(v, j). j = i) (zip (d_vertices d) (d_index d)))))"

text \<open>\<open>_unselect\<close>; the highlight it redraws belongs to the canvas.\<close>

definition unselect :: "layer \<Rightarrow> layer" where
  "unselect s =
     (if highlight s
      then s\<lparr>highlight := False, selected_shapes_stored := [],
             hover_shapes_stored := (None, None)\<rparr>
      else s)"

text \<open>
  \<open>_finish_drawing\<close>. \<open>data_remove\<close> and \<open>data_edit\<close> stand for \<open>self.data.remove\<close> and
  \<open>self.data.edit\<close>, methods of the absent \<open>ShapeList\<close>; they are parameters. Setting
  \<open>selected_shapes\<close> to the empty list sets \<open>_selected_box\<close> to \<open>None\<close>
  (\<open>select_box\<close> of an empty list). Both tests read \<open>self.mode\<close>, the mode at the time
  of the call. An exception ends the call with the state reached so far.
\<close>

definition finish_drawing ::
  "(nat option \<Rightarrow> layer_data \<Rightarrow> error + layer_data) \<Rightarrow>
   (nat option \<Rightarrow> vec list \<Rightarrow> layer_data \<Rightarrow> error + layer_data) \<Rightarrow>
   layer \<Rightarrow> error option \<times> layer" where
  "finish_drawing data_remove data_edit s =
     (let index = fst (selected_vertex s);
          s1 = s\<lparr>ready_to_create := False, is_moving := False, selected_shapes := [],
                 selected_box := None, drag_start := None, drag_box := None,
                 fixed_vertex := None, selected_vertex := (None, None),
                 hover_shapes := (None, None)\<rparr>;
          path_step =
            (if creating s1 \<and> mode s1 = ''add_path'' then
               (case vertices_of index (data s1) of
                  Inl e \<Rightarrow> Inl e
                | Inr vertices \<Rightarrow>
                    if length vertices \<le> 2 then data_remove index (data s1)
                    else data_edit index (butlast vertices) (data s1))
             else Inr (data s1))
      in case path_step of
           Inl e \<Rightarrow> (Some e, s1)
         | Inr d2 \<Rightarrow>
             let s2 = s1\<lparr>data := d2\<rparr>;
                 polygon_step =
                   (if creating s2 \<and> mode s2 = ''add_polygon'' then
                      (case vertices_of index (data s2) of
                         Inl e \<Rightarrow> Inl e
                       | Inr vertices \<Rightarrow>
                           if length vertices \<le> 2 then data_remove index (data s2)
                           else Inr (data s2))
                    else Inr (data s2))
             in case polygon_step of
                  Inl e \<Rightarrow> (Some e, s2)
                | Inr d3 \<Rightarrow> (None, unselect (s2\<lparr>data := d3, creating := False\<rparr>)))"

text \<open>
  The setter of \<open>Shapes.mode\<close>: nothing happens for the current mode; an unknown mode
  raises before anything is written; otherwise the new mode is stored first, and
  \<open>_finish_drawing\<close> runs afterwards unless both modes are vertex-editing modes.
\<close>

definition set_mode ::
  "(nat option \<Rightarrow> layer_data \<Rightarrow> error + layer_data) \<Rightarrow>
   (nat option \<Rightarrow> vec list \<Rightarrow> layer_data \<Rightarrow> error + layer_data) \<Rightarrow>
   string \<Rightarrow> layer \<Rightarrow> error option \<times> layer" where
  "set_mode data_remove data_edit m s =
     (if m = mode s then (None, s)
      else
        let old_mode = mode s in
        case mode_settings m of
          None \<Rightarrow> (Some ValueError, s)
        | Some (c, i, h) \<Rightarrow>
            let s1 = s\<lparr>cursor := c, interactive := i, help_text := h, status := m, mode := m\<rparr>
            in if vertex_editing m \<and> vertex_editing old_mode then (None, s1)
               else finish_drawing data_remove data_edit s1)"

subsection \<open>Hit tests\<close>

text \<open>
  NumPy's element access with an integer index: a negative index counts from the end, an
  index outside the array is an IndexError.
\<close>

definition np_take :: "'a list \<Rightarrow> int \<Rightarrow> error + 'a" where
  "np_take xs i =
     (if 0 \<le> i \<and> i < int (length xs) then Inr (xs ! nat i)
      else if i < 0 \<and> - int (length xs) \<le> i then Inr (xs ! nat (int (length xs) + i))
      else Inl IndexError)"

text \<open>Collecting results until the first exception.\<close>

fun collect :: "(error + 'a) list \<Rightarrow> error + 'a list" where
  "collect [] = Inr []"
| "collect (Inl e # _) = Inl e"
| "collect (Inr x # rest) = (case collect rest of Inl e \<Rightarrow> Inl e | Inr xs \<Rightarrow> Inr (x # xs))"

text \<open>\<open>self.data._mesh_vertices[self.data._mesh_triangles]\<close>: the corners of every triangle.\<close>

definition corners_of :: "vec list \<Rightarrow> tri \<Rightarrow> error + (vec \<times> vec \<times> vec)" where
  "corners_of vs t =
     (case np_take vs (fst t) of
        Inl e \<Rightarrow> Inl e
      | Inr a \<Rightarrow>
          (case np_take vs (fst (snd t)) of
             Inl e \<Rightarrow> Inl e
           | Inr b \<Rightarrow>
               (case np_take vs (snd (snd t)) of
                  Inl e \<Rightarrow> Inl e
                | Inr c \<Rightarrow> Inr (a, b, c))))"

definition mesh_corners :: "layer_data \<Rightarrow> error + (vec \<times> vec \<times> vec) list" where
  "mesh_corners d = collect (map (corners_of (d_mesh_vertices d)) (d_mesh_triangles d))"

text \<open>
  \<open>array[mask]\<close> with a Boolean mask: the rows whose mask entry is true; a mask of another
  length is an IndexError.
\<close>

definition np_mask :: "'a list \<Rightarrow> bool list \<Rightarrow> error + 'a list" where
  "np_mask xs msk =
     (if length msk \<noteq> length xs then Inl IndexError
      else Inr (map fst (filter snd (zip xs msk))))"

definition vsub :: "vec \<Rightarrow> vec \<Rightarrow> vec" where
  "vsub a b = (fsub (fst a) (fst b), fsub (snd a) (snd b))"

text \<open>\<open>z_list.index(m)\<close>: the first position of \<open>m\<close>, a ValueError when there is none.\<close>

fun list_index :: "'a list \<Rightarrow> 'a \<Rightarrow> error + nat" where
  "list_index [] m = Inl ValueError"
| "list_index (x # xs) m =
     (if x = m then Inr 0
      else case list_index xs m of Inl e \<Rightarrow> Inl e | Inr k \<Rightarrow> Inr (Suc k))"

text \<open>\<open>np.argsort\<close>: the positions of a list in ascending order of their entries.\<close>

definition argsort :: "nat list \<Rightarrow> nat list" where
  "argsort ks = sort_key (\<lambda>i. ks ! i) [0..<length ks]"

text \<open>
  \<open>_shape_at\<close>. With a selection, the method first looks for a handle of the selected
  box or a vertex of the selected shapes under the cursor; that test needs the canvas
  transform, so its outcome is the parameter \<open>handle\<close> (\<open>None\<close> when no handle matches or
  the mode has no handles). \<open>inside\<close> stands for \<open>inside_triangles\<close> of the absent module
  \<open>shape_util\<close>, applied to each triangle moved by the cursor position. Equal entries of
  \<open>order_indices\<close> belong to equal shape indices, so the first entry of \<open>ordered_shapes\<close>
  does not depend on how the sort places them.
\<close>

definition shape_at ::
  "(nat option \<times> nat option) option \<Rightarrow> (vec \<times> vec \<times> vec \<Rightarrow> bool) \<Rightarrow> vec \<Rightarrow> layer \<Rightarrow>
   error + (nat option \<times> nat option)" where
  "shape_at handle inside p s =
     (if selected_shapes s \<noteq> [] \<and> handle \<noteq> None then Inr (the handle)
      else
        case mesh_corners (data s) of
          Inl e \<Rightarrow> Inl e
        | Inr triangles \<Rightarrow>
            (case np_mask (d_mesh_triangles_index (data s))
                    (map (\<lambda>(a, b, c). inside (vsub a p, vsub b p, vsub c p)) triangles) of
               Inl e \<Rightarrow> Inl e
             | Inr shapes \<Rightarrow>
                 if length shapes > 0 then
                   let indices = map fst shapes;
                       z_list = d_z_order (data s)
                   in case collect (map (list_index z_list) indices) of
                        Inl e \<Rightarrow> Inl e
                      | Inr order_indices \<Rightarrow>
                          Inr (Some (hd (map (\<lambda>i. indices ! i) (argsort order_indices))), None)
                 else Inr (None, None)))"

text \<open>
  Modelled from the spec: \<open>create_box\<close> belongs to the absent module \<open>shape_util\<close>. The
  spec's bounding box has nine points; as in \<open>ShapesData._expand_box\<close> of shapes_data.py,
  point 0 is the corner of the minima and point 4 the corner of the maxima of the given
  points. \<open>np.min\<close> and \<open>np.max\<close> return NaN when an entry is NaN.
\<close>

definition np_min2 :: "fl \<Rightarrow> fl \<Rightarrow> fl" where
  "np_min2 a b = (if a = NaN \<or> b = NaN then NaN else if fle a b then a else b)"

definition np_max2 :: "fl \<Rightarrow> fl \<Rightarrow> fl" where
  "np_max2 a b = (if a = NaN \<or> b = NaN then NaN else if fle a b then b else a)"

definition create_box_0_4 :: "vec \<times> vec \<Rightarrow> vec \<times> vec" where
  "create_box_0_4 box =
     (let a = fst box; b = snd box
      in ((np_min2 (fst a) (fst b), np_min2 (snd a) (snd b)),
          (np_max2 (fst a) (fst b), np_max2 (snd a) (snd b))))"

text \<open>
  \<open>_shapes_in_box\<close>, called with the two corner points of the drag box. Column \<open>i\<close> of
  \<open>points_inside\<close> is the conjunction of \<open>box[1] >= triangles[:,0,:]\<close> and
  \<open>triangles[:,i,:] >= box[0]\<close> over both coordinates. \<open>np.unique\<close> sorts and removes
  duplicates.
\<close>

definition vge :: "vec \<Rightarrow> vec \<Rightarrow> bool" where
  "vge a b \<longleftrightarrow> fge (fst a) (fst b) \<and> fge (snd a) (snd b)"

definition points_inside :: "vec \<times> vec \<Rightarrow> vec \<times> vec \<times> vec \<Rightarrow> bool list" where
  "points_inside box t =
     (let c0 = fst t; c1 = fst (snd t); c2 = snd (snd t)
      in [vge (snd box) c0 \<and> vge c0 (fst box),
          vge (snd box) c0 \<and> vge c1 (fst box),
          vge (snd box) c0 \<and> vge c2 (fst box)])"

definition shapes_in_box :: "vec \<times> vec \<Rightarrow> layer \<Rightarrow> error + nat list" where
  "shapes_in_box box0 s =
     (let box = create_box_0_4 box0
      in case mesh_corners (data s) of
           Inl e \<Rightarrow> Inl e
         | Inr triangles \<Rightarrow>
             (case np_mask (d_mesh_triangles_index (data s))
                     (map (\<lambda>t. list_ex id (points_inside box t)) triangles) of
                Inl e \<Rightarrow> Inl e
              | Inr tagged \<Rightarrow> Inr (sorted_list_of_set (set (map fst tagged)))))"

text \<open>
  The reading of the specification, for comparison: a corner is inside the box when it
  lies between both bounds in both coordinates, and a shape is reported when one of its
  triangles has such a corner.
\<close>

definition corner_in_box :: "vec \<times> vec \<Rightarrow> vec \<Rightarrow> bool" where
  "corner_in_box box c \<longleftrightarrow> vge (snd box) c \<and> vge c (fst box)"

definition shapes_with_corner_in_box :: "vec \<times> vec \<Rightarrow> layer \<Rightarrow> error + nat list" where
  "shapes_with_corner_in_box box0 s =
     (let box = create_box_0_4 box0
      in case mesh_corners (data s) of
           Inl e \<Rightarrow> Inl e
         | Inr triangles \<Rightarrow>
             (case np_mask (d_mesh_triangles_index (data s))
                     (map (\<lambda>(a, b, c). corner_in_box box a \<or> corner_in_box box b \<or>
                                        corner_in_box box c) triangles) of
                Inl e \<Rightarrow> Inl e
              | Inr tagged \<Rightarrow> Inr (sorted_list_of_set (set (map fst tagged)))))"

text \<open>The shapes with a mesh triangle that contains the point.\<close>

definition shapes_containing ::
  "(vec \<times> vec \<times> vec \<Rightarrow> bool) \<Rightarrow> vec \<Rightarrow> layer_data \<Rightarrow> nat set" where
  "shapes_containing inside p d =
     {fst (d_mesh_triangles_index d ! q) | q a b c.
        q < length (d_mesh_triangles d) \<and>
        corners_of (d_mesh_vertices d) (d_mesh_triangles d ! q) = Inr (a, b, c) \<and>
        inside (vsub a p, vsub b p, vsub c p)}"

text \<open>The corners a triangle selects when its three indices are within the array.\<close>

definition corners_at :: "vec list \<Rightarrow> tri \<Rightarrow> vec \<times> vec \<times> vec" where
  "corners_at vs t = (vs ! nat (fst t), vs ! nat (fst (snd t)), vs ! nat (snd (snd t)))"

text \<open>
  The mesh arrays fit together: as many triangle tags as triangles, every corner index
  within the vertex array, and every tagged shape a shape of the collection.
\<close>

definition mesh_ok :: "layer_data \<Rightarrow> bool" where
  "mesh_ok d \<longleftrightarrow>
     length (d_mesh_triangles_index d) = length (d_mesh_triangles d) \<and>
     (\<forall>t \<in> set (d_mesh_triangles d).
        0 \<le> fst t \<and> fst t < int (length (d_mesh_vertices d)) \<and>
        0 \<le> fst (snd t) \<and> fst (snd t) < int (length (d_mesh_vertices d)) \<and>
        0 \<le> snd (snd t) \<and> snd (snd t) < int (length (d_mesh_vertices d))) \<and>
     (\<forall>g \<in> set (d_mesh_triangles_index d). fst g < length (d_z_index d))"

subsection \<open>A small layer for concrete runs\<close>

text \<open>
  Two triangular shapes around the origin's corner, shape 1 above shape 0; neither is
  selected. The second layer is in the middle of drawing a path, shape 0, whose two
  vertices still coincide.
\<close>

definition demo_data :: layer_data where
  "demo_data =
     \<lparr>d_vertices = [(Fin 0, Fin 0), (Fin 4, Fin 0), (Fin 0, Fin 4),
                     (Fin 0, Fin 0), (Fin 2, Fin 0), (Fin 0, Fin 2)],
      d_index = [0, 0, 0, 1, 1, 1],
      d_mesh_vertices = [(Fin 0, Fin 0), (Fin 4, Fin 0), (Fin 0, Fin 4),
                          (Fin 0, Fin 0), (Fin 2, Fin 0), (Fin 0, Fin 2)],
      d_mesh_triangles = [(0, 1, 2), (3, 4, 5)],
      d_mesh_triangles_index = [(0, 0), (1, 0)],
      d_z_index = [0, 1],
      d_z_order = [1, 0],
      d_shape_opacity = [Fin 1, Fin 1]\<rparr>"

definition demo_layer :: layer where
  "demo_layer =
     \<lparr>data = demo_data, mode = ''select'', cursor = ''pointing'', interactive = False,
      help_text = ''hold <space> to pan/zoom, press <delete> to remove selected'',
      status = ''select'', opacity = Fin 1, apply_all = False, highlight = True,
      selected_shapes = [], selected_shapes_stored = [], selected_box = None,
      hover_shapes = (None, None), hover_shapes_stored = (None, None),
      drag_start = None, drag_box = None, fixed_vertex = None,
      selected_vertex = (None, None), is_moving = False, ready_to_create = False,
      creating = False\<rparr>"

definition drawing_data :: layer_data where
  "drawing_data =
     \<lparr>d_vertices = [(Fin 1, Fin 1), (Fin 1, Fin 1)],
      d_index = [0, 0],
      d_mesh_vertices = [(NaN, NaN), (NaN, NaN), (NaN, NaN), (NaN, NaN)],
      d_mesh_triangles = [(0, 1, 3), (1, 2, 3)],
      d_mesh_triangles_index = [(0, 1), (0, 1)],
      d_z_index = [0],
      d_z_order = [0],
      d_shape_opacity = [Fin 1]\<rparr>"

definition drawing_layer :: layer where
  "drawing_layer =
     \<lparr>data = drawing_data, mode = ''add_path'', cursor = ''cross'', interactive = False,
      help_text = ''hold <space> to pan/zoom'', status = ''add_path'', opacity = Fin 1,
      apply_all = True, highlight = True,
      selected_shapes = [0], selected_shapes_stored = [0], selected_box = None,
      hover_shapes = (Some 0, Some 1), hover_shapes_stored = (Some 0, Some 1),
      drag_start = None, drag_box = None, fixed_vertex = None,
      selected_vertex = (Some 0, Some 1), is_moving = False, ready_to_create = False,
      creating = True\<rparr>"

text \<open>
  Modelled from the spec: \<open>inside_triangles\<close> of the absent module \<open>shape_util\<close>, the
  fixed sign test of the geometry kernel: the origin lies in a triangle when it is on
  the same side of all three edges.
\<close>

definition edge_side :: "vec \<Rightarrow> vec \<Rightarrow> fl" where
  "edge_side a b = fsub (fmul (fst a) (snd b)) (fmul (snd a) (fst b))"

definition inside_triangle :: "vec \<times> vec \<times> vec \<Rightarrow> bool" where
  "inside_triangle t =
     (let a = fst t; b = fst (snd t); c = snd (snd t)
      in (fle (Fin 0) (edge_side a b) \<and> fle (Fin 0) (edge_side b c) \<and>
          fle (Fin 0) (edge_side c a)) \<or>
         (fle (edge_side a b) (Fin 0) \<and> fle (edge_side b c) (Fin 0) \<and>
          fle (edge_side c a) (Fin 0)))"

text \<open>
  One large triangle, shape 0, none of whose corners lies in the box from \<open>(5, 5)\<close> to
  \<open>(10, 10)\<close>.
\<close>

definition wide_data :: layer_data where
  "wide_data =
     \<lparr>d_vertices = [(Fin 0, Fin 0), (Fin 20, Fin 20), (Fin 0, Fin 20)],
      d_index = [0, 0, 0],
      d_mesh_vertices = [(Fin 0, Fin 0), (Fin 20, Fin 20), (Fin 0, Fin 20)],
      d_mesh_triangles = [(0, 1, 2)],
      d_mesh_triangles_index = [(0, 0)],
      d_z_index = [0],
      d_z_order = [0],
      d_shape_opacity = [Fin 1]\<rparr>"

definition wide_layer :: layer where
  "wide_layer = demo_layer\<lparr>data := wide_data\<rparr>"
section \<open>Stroking a path (shapes_data.py)\<close>

subsection \<open>Vectors\<close>

definition vadd :: "vec \<Rightarrow> vec \<Rightarrow> vec" where
  "vadd a b = (fadd (fst a) (fst b), fadd (snd a) (snd b))"

definition vneg :: "vec \<Rightarrow> vec" where
  "vneg a = (fneg (fst a), fneg (snd a))"

text \<open>A scalar times a vector, and a vector divided by a scalar.\<close>

definition vscale :: "fl \<Rightarrow> vec \<Rightarrow> vec" where
  "vscale k a = (fmul k (fst a), fmul k (snd a))"

definition vdivs :: "vec \<Rightarrow> fl \<Rightarrow> vec" where
  "vdivs a k = (fdiv (fst a) k, fdiv (snd a) k)"

definition vdot :: "vec \<Rightarrow> vec \<Rightarrow> fl" where
  "vdot a b = fadd (fmul (fst a) (fst b)) (fmul (snd a) (snd b))"

text \<open>\<open>np.linalg.norm\<close> of a vector and \<open>np.cross\<close> of two plane vectors.\<close>

definition vnorm :: "vec \<Rightarrow> fl" where
  "vnorm a = fsqrt (fadd (fmul (fst a) (fst a)) (fmul (snd a) (snd a)))"

definition vcross :: "vec \<Rightarrow> vec \<Rightarrow> fl" where
  "vcross a b = fsub (fmul (fst a) (snd b)) (fmul (snd a) (fst b))"

text \<open>\<open>rows.mean(axis=0)\<close>: the sum of the rows divided by their number.\<close>

definition vmean :: "vec list \<Rightarrow> vec" where
  "vmean rows = vdivs (foldl vadd (Fin 0, Fin 0) rows) (Fin (real (length rows)))"

subsection \<open>Normals and miters\<close>

definition segment_normal :: "vec \<Rightarrow> vec \<Rightarrow> vec" where
  "segment_normal a b =
     (let d = vsub b a;
          normal = (snd d, fneg (fst d))
      in vdivs normal (vnorm normal))"

text \<open>
  The first part of \<open>path_triangulate\<close>: the path the loop walks over, one normal per
  vertex and one more, and the miter vectors before they are halved. A closed path wraps
  around; an open path reads \<open>path[-2]\<close>, an IndexError below two points, and flips the
  sign of its last normal.
\<close>

definition path_normals :: "vec list \<Rightarrow> bool \<Rightarrow> error + (vec list \<times> vec list)" where
  "path_normals path is_closed =
     (if is_closed then
        (if path = [] then Inl IndexError
         else
           let full_path = [last path] @ path @ [hd path];
               normals = map (\<lambda>i. segment_normal (full_path ! i) (full_path ! (i + 1)))
                           [0..<length path]
           in Inr (path @ [hd path], normals @ [hd normals]))
      else
        (if length path < 2 then Inl IndexError
         else
           let full_path = path @ [path ! (length path - 2)];
               normals = map (\<lambda>i. segment_normal (full_path ! i) (full_path ! (i + 1)))
                           [0..<length path];
               normals = butlast normals @ [vneg (last normals)]
           in Inr (path, [hd normals] @ normals)))"

definition path_miters :: "vec list \<Rightarrow> vec list \<Rightarrow> vec list" where
  "path_miters full_path full_normals =
     (let miters = map (\<lambda>i. vmean (take 2 (drop i full_normals))) [0..<length full_path]
      in map (\<lambda>i. vdivs (miters ! i) (vdot (miters ! i) (full_normals ! i)))
           [0..<length full_path])"

subsection \<open>The loop over the vertices\<close>

type_synonym face = "nat \<times> nat \<times> nat"

text \<open>
  The loop state: \<open>vertex_offsets\<close>, \<open>central_path\<close>, \<open>faces\<close> and the counter \<open>m\<close>.
  \<open>vertex_offsets[k]\<close> on a Python list is an IndexError beyond its end.
\<close>

type_synonym tri_state = "vec list \<times> vec list \<times> face list \<times> nat"

definition py_nth :: "'a list \<Rightarrow> nat \<Rightarrow> error + 'a" where
  "py_nth xs k = (if k < length xs then Inr (xs ! k) else Inl IndexError)"

text \<open>
  The test that chooses between the two ways of splitting a quad: the sign of
  \<open>np.cross(a, ray) * np.cross(b, ray)\<close>, where \<open>a\<close> and \<open>b\<close> are vertex offsets minus
  the previous path point.
\<close>

definition same_side :: "vec \<Rightarrow> vec \<Rightarrow> vec \<Rightarrow> vec \<Rightarrow> bool" where
  "same_side oa ob prev cur =
     (let a = vsub oa prev; b = vsub ob prev; ray = vsub cur prev
      in fgt (fmul (vcross a ray) (vcross b ray)) (Fin 0))"

definition quad_faces :: "vec list \<Rightarrow> nat \<Rightarrow> vec \<Rightarrow> vec \<Rightarrow> error + face list" where
  "quad_faces vo m prev cur =
     (case py_nth vo (m + 1) of
        Inl e \<Rightarrow> Inl e
      | Inr oa \<Rightarrow>
          (case py_nth vo (m + 3) of
             Inl e \<Rightarrow> Inl e
           | Inr ob \<Rightarrow>
               if same_side oa ob prev cur
               then Inr [(m, m + 1, m + 3), (m, m + 2, m + 3)]
               else Inr [(m, m + 1, m + 3), (m + 1, m + 2, m + 3)]))"

definition closing_faces :: "vec list \<Rightarrow> nat \<Rightarrow> vec \<Rightarrow> vec \<Rightarrow> error + face list" where
  "closing_faces vo m prev cur =
     (case py_nth vo (m + 1) of
        Inl e \<Rightarrow> Inl e
      | Inr oa \<Rightarrow>
          (case py_nth vo 1 of
             Inl e \<Rightarrow> Inl e
           | Inr ob \<Rightarrow>
               if same_side oa ob prev cur
               then Inr [(m, m + 1, 1), (m, 0, 1)]
               else Inr [(m, m + 1, 1), (m + 1, 0, 1)]))"

text \<open>The three offsets of a bevel corner.\<close>

definition bevel_offsets :: "vec \<Rightarrow> vec \<Rightarrow> vec list" where
  "bevel_offsets miter normal =
     (let offset = (snd miter, fneg (fst miter));
          offset = vdivs (vscale (Fin (1/2)) offset) (vnorm offset);
          flip = fsign (vdot offset normal)
      in [offset, vscale (fneg flip) miter, vneg offset])"

text \<open>
  One pass of the loop body for the index \<open>i\<close>. \<open>miters\<close> are the halved miters. The
  bevel branch for an inner vertex appends three offsets and three faces but no centre.
\<close>

definition tri_step ::
  "bool \<Rightarrow> fl \<Rightarrow> bool \<Rightarrow> vec list \<Rightarrow> vec list \<Rightarrow> vec list \<Rightarrow> fl list \<Rightarrow>
   nat \<Rightarrow> tri_state \<Rightarrow> error + tri_state" where
  "tri_step is_closed limit bevel full_path full_normals miters miter_lengths i st =
     (let vo = fst st; cp = fst (snd st); faces = fst (snd (snd st)); m = snd (snd (snd st));
          p = full_path ! i; mi = miters ! i
      in
      if i = 0 then
        (if (bevel \<or> fgt (miter_lengths ! i) limit) \<and> is_closed
         then Inr (vo @ bevel_offsets mi (full_normals ! i), cp @ [p, p, p],
                   faces @ [(0, 1, 2)], m + 1)
         else Inr (vo @ [vneg mi, mi], cp @ [p, p], faces, m))
      else if i = length full_path - 1 then
        (if is_closed then
           (case closing_faces vo m (full_path ! (i - 1)) p of
              Inl e \<Rightarrow> Inl e
            | Inr fs \<Rightarrow> Inr (vo, cp, faces @ fs, m))
         else
           (case quad_faces (vo @ [vneg mi, mi]) m (full_path ! (i - 1)) p of
              Inl e \<Rightarrow> Inl e
            | Inr fs \<Rightarrow> Inr (vo @ [vneg mi, mi], cp @ [p, p], faces @ fs, m)))
      else if bevel \<or> fgt (miter_lengths ! i) limit then
        (case quad_faces (vo @ bevel_offsets mi (full_normals ! i)) m (full_path ! (i - 1)) p of
           Inl e \<Rightarrow> Inl e
         | Inr fs \<Rightarrow>
             Inr (vo @ bevel_offsets mi (full_normals ! i), cp,
                  faces @ fs @ [(m + 2, m + 3, m + 4)], m + 3))
      else
        (case quad_faces (vo @ [vneg mi, mi]) m (full_path ! (i - 1)) p of
           Inl e \<Rightarrow> Inl e
         | Inr fs \<Rightarrow> Inr (vo @ [vneg mi, mi], cp @ [p, p], faces @ fs, m + 2)))"

text \<open>Running the loop body over a list of indices, up to the first exception.\<close>

fun run_steps :: "(nat \<Rightarrow> 's \<Rightarrow> error + 's) \<Rightarrow> nat list \<Rightarrow> 's \<Rightarrow> error + 's" where
  "run_steps f [] st = Inr st"
| "run_steps f (i # rest) st =
     (case f i st of Inl e \<Rightarrow> Inl e | Inr st' \<Rightarrow> run_steps f rest st')"

text \<open>
  What the loop builds when it never bevels: every halved miter twice, negated first,
  and every path point twice.
\<close>

definition off_pairs :: "vec list \<Rightarrow> nat \<Rightarrow> vec list" where
  "off_pairs ms k = concat (map (\<lambda>i. [vneg (ms ! i), ms ! i]) [0..<k])"

definition twice :: "vec list \<Rightarrow> nat \<Rightarrow> vec list" where
  "twice ps k = concat (map (\<lambda>i. [ps ! i, ps ! i]) [0..<k])"

text \<open>
  Between two passes of the loop there are two more offsets than the counter says; every
  index the next pass reads is then within the list.
\<close>

definition step_ok :: "tri_state \<Rightarrow> bool" where
  "step_ok st \<longleftrightarrow> length (fst st) = snd (snd (snd st)) + 2"

text \<open>
  \<open>path_triangulate\<close>: the centres, the offsets and the faces, in this order.
\<close>

definition path_triangulate ::
  "vec list \<Rightarrow> bool \<Rightarrow> fl \<Rightarrow> bool \<Rightarrow> error + (vec list \<times> vec list \<times> face list)" where
  "path_triangulate path is_closed limit bevel =
     (case path_normals path is_closed of
        Inl e \<Rightarrow> Inl e
      | Inr (full_path, full_normals) \<Rightarrow>
          let miters = path_miters full_path full_normals;
              miter_lengths = map vnorm miters;
              miters = map (vscale (Fin (1/2))) miters
          in case run_steps (tri_step is_closed limit bevel full_path full_normals miters
                               miter_lengths)
                    [0..<length full_path] ([], [], [], 0) of
               Inl e \<Rightarrow> Inl e
             | Inr (vo, cp, faces, m) \<Rightarrow> Inr (cp, vo, faces))"

text \<open>
  The lengths of the miters as the loop compares them with the limit (empty when the
  normals cannot be computed).
\<close>

definition miter_lengths_of :: "vec list \<Rightarrow> bool \<Rightarrow> fl list" where
  "miter_lengths_of path is_closed =
     (case path_normals path is_closed of
        Inl e \<Rightarrow> []
      | Inr (full_path, full_normals) \<Rightarrow> map vnorm (path_miters full_path full_normals))"

text \<open>The default bevel limit of \<open>path_triangulate\<close>.\<close>

definition default_limit :: fl where
  "default_limit = Fin 5"

subsection \<open>From centres and offsets to mesh vertices\<close>

text \<open>
  \<open>centers + thickness * offsets\<close> on arrays of rows: equal lengths add row by row, a
  single row is broadcast, any other pair of lengths is NumPy's ValueError.
\<close>

definition np_add_rows :: "vec list \<Rightarrow> vec list \<Rightarrow> error + vec list" where
  "np_add_rows xs ys =
     (if length xs = length ys then Inr (map (\<lambda>(x, y). vadd x y) (zip xs ys))
      else if length ys = 1 then Inr (map (\<lambda>x. vadd x (hd ys)) xs)
      else if length xs = 1 then Inr (map (\<lambda>y. vadd (hd xs) y) ys)
      else Inl ValueError)"

definition stroke_vertices :: "vec list \<Rightarrow> fl \<Rightarrow> vec list \<Rightarrow> error + vec list" where
  "stroke_vertices centers thickness offsets =
     np_add_rows centers (map (vscale thickness) offsets)"

text \<open>
  The mesh arrays of \<open>ShapesData\<close> and the edge part of \<open>_compute_meshes\<close>, which is all
  that \<open>_add_paths\<close> asks for: triangulate, place the vertices, append. The tag of every
  appended row is \<open>index + [1]\<close>.
\<close>

record shapes_data_mesh =
  sd_mesh_vertices :: "vec list"
  sd_mesh_vertices_index :: "(nat \<times> nat \<times> nat) list"
  sd_mesh_vertices_centers :: "vec list"
  sd_mesh_vertices_offsets :: "vec list"
  sd_mesh_faces :: "face list"
  sd_mesh_faces_index :: "(nat \<times> nat \<times> nat) list"

definition append_meshes ::
  "vec list \<Rightarrow> face list \<Rightarrow> nat \<times> nat \<times> nat \<Rightarrow> vec list \<Rightarrow> vec list \<Rightarrow>
   shapes_data_mesh \<Rightarrow> shapes_data_mesh" where
  "append_meshes vertices faces index centers offsets s =
     (let m = length (sd_mesh_vertices s)
      in s\<lparr>sd_mesh_vertices := sd_mesh_vertices s @ vertices,
            sd_mesh_vertices_index :=
              sd_mesh_vertices_index s @ replicate (length vertices) index,
            sd_mesh_vertices_centers := sd_mesh_vertices_centers s @ centers,
            sd_mesh_vertices_offsets := sd_mesh_vertices_offsets s @ offsets,
            sd_mesh_faces :=
              sd_mesh_faces s @ map (\<lambda>(a, b, c). (m + a, m + b, m + c)) faces,
            sd_mesh_faces_index := sd_mesh_faces_index s @ replicate (length faces) index\<rparr>)"

definition compute_edge_meshes ::
  "vec list \<Rightarrow> bool \<Rightarrow> fl \<Rightarrow> nat \<times> nat \<Rightarrow> shapes_data_mesh \<Rightarrow> error + shapes_data_mesh" where
  "compute_edge_meshes points is_closed thickness index s =
     (case path_triangulate points is_closed default_limit False of
        Inl e \<Rightarrow> Inl e
      | Inr (centers, offsets, faces) \<Rightarrow>
          (case stroke_vertices centers thickness offsets of
             Inl e \<Rightarrow> Inl e
           | Inr vertices \<Rightarrow>
               Inr (append_meshes vertices faces (fst index, snd index, 1) centers offsets s)))"

definition empty_mesh :: shapes_data_mesh where
  "empty_mesh =
     \<lparr>sd_mesh_vertices = [], sd_mesh_vertices_index = [], sd_mesh_vertices_centers = [],
      sd_mesh_vertices_offsets = [], sd_mesh_faces = [], sd_mesh_faces_index = []\<rparr>"

text \<open>The signed area of a mesh triangle over float coordinates.\<close>

definition fl_signed_area :: "vec \<Rightarrow> vec \<Rightarrow> vec \<Rightarrow> fl" where
  "fl_signed_area a b c = fdiv (vcross (vsub b a) (vsub c a)) (Fin 2)"

definition fl_face_area :: "vec list \<Rightarrow> face \<Rightarrow> fl" where
  "fl_face_area vs f = fl_signed_area (vs ! fst f) (vs ! fst (snd f)) (vs ! snd (snd f))"

text \<open>A point with finite coordinates.\<close>

fun is_fin :: "fl \<Rightarrow> bool" where
  "is_fin (Fin a) = True"
| "is_fin _ = False"

definition finite_point :: "vec \<Rightarrow> bool" where
  "finite_point p \<longleftrightarrow> is_fin (fst p) \<and> is_fin (snd p)"

text \<open>An open path with one right-angled corner.\<close>

definition corner_path :: "vec list" where
  "corner_path = [(Fin 0, Fin 0), (Fin 1, Fin 0), (Fin 1, Fin 1)]"
section \<open>The shape collection (shapes_list.py)\<close>

type_synonym rgba = "fl \<times> fl \<times> fl \<times> fl"

text \<open>
  The attributes of a \<open>Shape\<close> that \<open>ShapesList\<close> reads. The class itself (module
  \<open>shape\<close>) is not among the sources, so a shape is whatever these attributes hold:
  \<open>data\<close>, \<open>z_order\<close>, \<open>edge_width\<close>, the two colours as their \<open>rgba\<close> rows, and the
  cached meshes \<open>_edge_vertices\<close>, \<open>_edge_offsets\<close>, \<open>_edge_triangles\<close>,
  \<open>_face_vertices\<close> and \<open>_face_triangles\<close>.
\<close>

record shape =
  sh_data :: "vec list"
  sh_z_order :: int
  sh_edge_width :: fl
  sh_edge_color :: rgba
  sh_face_color :: rgba
  sh_edge_vertices :: "vec list"
  sh_edge_offsets :: "vec list"
  sh_edge_triangles :: "tri list"
  sh_face_vertices :: "vec list"
  sh_face_triangles :: "tri list"

text \<open>
  The arrays of \<open>ShapesList\<close>, under their names with \<open>sl\<close> in front. A tag is the pair
  of a shape index and a mesh type, 0 for a face and 1 for an edge.
\<close>

record shapes_list =
  sl_shapes :: "shape list"
  sl_vertices :: "vec list"
  sl_index :: "nat list"
  sl_z_order :: "int list"
  sl_mesh_vertices :: "vec list"
  sl_mesh_vertices_index :: "(nat \<times> nat) list"
  sl_mesh_triangles :: "tri list"
  sl_mesh_triangles_index :: "(nat \<times> nat) list"
  sl_mesh_triangles_colors :: "rgba list"
  sl_mesh_triangles_z_order :: "int list"

definition remove_all :: shapes_list where
  "remove_all =
     \<lparr>sl_shapes = [], sl_vertices = [], sl_index = [], sl_z_order = [],
      sl_mesh_vertices = [], sl_mesh_vertices_index = [], sl_mesh_triangles = [],
      sl_mesh_triangles_index = [], sl_mesh_triangles_colors = [],
      sl_mesh_triangles_z_order = []\<rparr>"

text \<open>Sequencing of steps that may raise.\<close>

definition ebind :: "error + 'a \<Rightarrow> ('a \<Rightarrow> error + 'b) \<Rightarrow> error + 'b" where
  "ebind r f = (case r of Inl e \<Rightarrow> Inl e | Inr x \<Rightarrow> f x)"

definition shift_tri :: "int \<Rightarrow> tri \<Rightarrow> tri" where
  "shift_tri m t = (fst t + m, fst (snd t) + m, snd (snd t) + m)"

text \<open>
  The part of \<open>add\<close> that appends one mesh (vertices, triangles, a colour) under the tag
  \<open>(shape_index, mesh_type)\<close>; \<open>add\<close> runs it for the edge and then for the face.
\<close>

definition append_mesh ::
  "vec list \<Rightarrow> tri list \<Rightarrow> nat \<times> nat \<Rightarrow> rgba \<Rightarrow> int \<Rightarrow> shapes_list \<Rightarrow> shapes_list" where
  "append_mesh vertices tris tag color z s =
     (let m = int (length (sl_mesh_vertices s));
          triangles = map (shift_tri m) tris
      in s\<lparr>sl_mesh_vertices := sl_mesh_vertices s @ vertices,
            sl_mesh_vertices_index :=
              sl_mesh_vertices_index s @ replicate (length vertices) tag,
            sl_mesh_triangles := sl_mesh_triangles s @ triangles,
            sl_mesh_triangles_index :=
              sl_mesh_triangles_index s @ replicate (length triangles) tag,
            sl_mesh_triangles_colors :=
              sl_mesh_triangles_colors s @ replicate (length triangles) color,
            sl_mesh_triangles_z_order :=
              sl_mesh_triangles_z_order s @ replicate (length triangles) z\<rparr>)"

definition add_meshes :: "shape \<Rightarrow> nat \<Rightarrow> shapes_list \<Rightarrow> error + shapes_list" where
  "add_meshes sh shape_index s =
     (let s1 = s\<lparr>sl_vertices := sl_vertices s @ sh_data sh,
                 sl_index := sl_index s @ replicate (length (sh_data sh)) shape_index\<rparr>
      in ebind (stroke_vertices (sh_edge_vertices sh) (sh_edge_width sh) (sh_edge_offsets sh))
           (\<lambda>vertices.
              Inr (append_mesh (sh_face_vertices sh) (sh_face_triangles sh) (shape_index, 0)
                     (sh_face_color sh) (sh_z_order sh)
                     (append_mesh vertices (sh_edge_triangles sh) (shape_index, 1)
                        (sh_edge_color sh) (sh_z_order sh) s1))))"

text \<open>
  \<open>add(shape)\<close> appends the shape; \<open>add(shape, shape_index)\<close> writes it over the slot
  \<open>shape_index\<close>, an IndexError when there is no such slot.
\<close>

definition add :: "shape \<Rightarrow> shapes_list \<Rightarrow> error + shapes_list" where
  "add sh s =
     add_meshes sh (length (sl_shapes s))
       (s\<lparr>sl_shapes := sl_shapes s @ [sh], sl_z_order := sl_z_order s @ [sh_z_order sh]\<rparr>)"

definition add_at :: "shape \<Rightarrow> nat \<Rightarrow> shapes_list \<Rightarrow> error + shapes_list" where
  "add_at sh shape_index s =
     (if shape_index < length (sl_shapes s) \<and> shape_index < length (sl_z_order s)
      then add_meshes sh shape_index
             (s\<lparr>sl_shapes := (sl_shapes s)[shape_index := sh],
                sl_z_order := (sl_z_order s)[shape_index := sh_z_order sh]\<rparr>)
      else Inl IndexError)"

text \<open>
  \<open>remove_one\<close>. Each array is cut down by a Boolean mask computed from a tag array;
  \<open>np.where(np.invert(indices))[0]\<close> lists the positions of the removed mesh vertices,
  and reading its first entry is an IndexError when the shape has no mesh vertex. Every
  triangle entry greater than that first position is lowered by the number of removed
  vertices. With \<open>renumber\<close>, the shape and its z value are deleted and every shape index
  above \<open>index\<close> is lowered by one.
\<close>

definition removed_positions :: "nat \<Rightarrow> (nat \<times> nat) list \<Rightarrow> nat list" where
  "removed_positions index tags = filter (\<lambda>p. fst (tags ! p) = index) [0..<length tags]"

definition lower_above :: "int \<Rightarrow> int \<Rightarrow> tri \<Rightarrow> tri" where
  "lower_above first k t =
     ((if fst t > first then fst t - k else fst t),
      (if fst (snd t) > first then fst (snd t) - k else fst (snd t)),
      (if snd (snd t) > first then snd (snd t) - k else snd (snd t)))"

definition renumber_index :: "nat \<Rightarrow> nat \<Rightarrow> nat" where
  "renumber_index index j = (if j > index then j - 1 else j)"

definition renumber_tag :: "nat \<Rightarrow> nat \<times> nat \<Rightarrow> nat \<times> nat" where
  "renumber_tag index g = (renumber_index index (fst g), snd g)"

definition delete_at :: "nat \<Rightarrow> 'a list \<Rightarrow> 'a list" where
  "delete_at i xs = take i xs @ drop (Suc i) xs"

definition remove_one :: "nat \<Rightarrow> bool \<Rightarrow> shapes_list \<Rightarrow> error + shapes_list" where
  "remove_one index renumber s =
     ebind (np_mask (sl_vertices s) (map (\<lambda>j. j \<noteq> index) (sl_index s))) (\<lambda>vertices.
     ebind (np_mask (sl_mesh_triangles s)
              (map (\<lambda>g. fst g \<noteq> index) (sl_mesh_triangles_index s))) (\<lambda>triangles.
     ebind (np_mask (sl_mesh_triangles_colors s)
              (map (\<lambda>g. fst g \<noteq> index) (sl_mesh_triangles_index s))) (\<lambda>colors.
     ebind (np_mask (sl_mesh_triangles_z_order s)
              (map (\<lambda>g. fst g \<noteq> index) (sl_mesh_triangles_index s))) (\<lambda>z_order.
     ebind (np_mask (sl_mesh_vertices s)
              (map (\<lambda>g. fst g \<noteq> index) (sl_mesh_vertices_index s))) (\<lambda>mesh_vertices.
       let indices = removed_positions index (sl_mesh_vertices_index s)
       in if indices = [] then Inl IndexError
          else
            let s1 = s\<lparr>sl_vertices := vertices,
                        sl_index := filter (\<lambda>j. j \<noteq> index) (sl_index s),
                        sl_mesh_triangles :=
                          map (lower_above (int (hd indices)) (int (length indices))) triangles,
                        sl_mesh_triangles_colors := colors,
                        sl_mesh_triangles_z_order := z_order,
                        sl_mesh_triangles_index :=
                          filter (\<lambda>g. fst g \<noteq> index) (sl_mesh_triangles_index s),
                        sl_mesh_vertices := mesh_vertices,
                        sl_mesh_vertices_index :=
                          filter (\<lambda>g. fst g \<noteq> index) (sl_mesh_vertices_index s)\<rparr>
            in if renumber then
                 (if index < length (sl_shapes s1) \<and> index < length (sl_z_order s1) then
                    Inr (s1\<lparr>sl_shapes := delete_at index (sl_shapes s1),
                            sl_z_order := delete_at index (sl_z_order s1),
                            sl_index := map (renumber_index index) (sl_index s1),
                            sl_mesh_triangles_index :=
                              map (renumber_tag index) (sl_mesh_triangles_index s1),
                            sl_mesh_vertices_index :=
                              map (renumber_tag index) (sl_mesh_vertices_index s1)\<rparr>)
                  else Inl IndexError)
               else Inr s1)))))"

text \<open>
  \<open>edit\<close>: the shape's data has been replaced (the setter of \<open>Shape.data\<close> rebuilds its
  meshes, which is the parameter \<open>sh\<close>); the shape is removed without renumbering and
  added again at its index.
\<close>

definition edit :: "nat \<Rightarrow> shape \<Rightarrow> shapes_list \<Rightarrow> error + shapes_list" where
  "edit index sh s =
     (if index < length (sl_shapes s)
      then ebind (remove_one index False (s\<lparr>sl_shapes := (sl_shapes s)[index := sh]\<rparr>))
             (add_at sh index)
      else Inl IndexError)"

subsection \<open>Consistent collections\<close>

text \<open>
  Modelled from the spec: the class \<open>Shape\<close> is absent, so what its cached meshes look
  like comes from the spec. The stroke mesh has one offset per centre and, for a path of
  two or more points, at least four vertices; the triangles of either mesh index into
  that mesh's own vertices.
\<close>

definition tri_within :: "int \<Rightarrow> int \<Rightarrow> tri \<Rightarrow> bool" where
  "tri_within lo hi t \<longleftrightarrow>
     lo \<le> fst t \<and> fst t < hi \<and> lo \<le> fst (snd t) \<and> fst (snd t) < hi \<and>
     lo \<le> snd (snd t) \<and> snd (snd t) < hi"

definition shape_ok :: "shape \<Rightarrow> bool" where
  "shape_ok sh \<longleftrightarrow>
     length (sh_edge_offsets sh) = length (sh_edge_vertices sh) \<and>
     sh_edge_vertices sh \<noteq> [] \<and>
     list_all (tri_within 0 (int (length (sh_edge_vertices sh)))) (sh_edge_triangles sh) \<and>
     list_all (tri_within 0 (int (length (sh_face_vertices sh)))) (sh_face_triangles sh)"

text \<open>
  The invariant of the flattened arrays: parallel arrays have equal lengths, every tag
  names a shape of the collection, the mesh vertices of every shape form one non-empty
  block of consecutive positions, and the triangles of a shape index into its block.
\<close>

definition block_ok :: "shapes_list \<Rightarrow> nat \<Rightarrow> bool" where
  "block_ok s j \<longleftrightarrow>
     (let ps = removed_positions j (sl_mesh_vertices_index s)
      in ps \<noteq> [] \<and> ps = [hd ps..<hd ps + length ps] \<and>
         list_all (\<lambda>(t, g). fst g = j \<longrightarrow>
                     tri_within (int (hd ps)) (int (hd ps + length ps)) t)
           (zip (sl_mesh_triangles s) (sl_mesh_triangles_index s)))"

definition consistent :: "shapes_list \<Rightarrow> bool" where
  "consistent s \<longleftrightarrow>
     length (sl_z_order s) = length (sl_shapes s) \<and>
     length (sl_index s) = length (sl_vertices s) \<and>
     length (sl_mesh_vertices_index s) = length (sl_mesh_vertices s) \<and>
     length (sl_mesh_triangles_index s) = length (sl_mesh_triangles s) \<and>
     length (sl_mesh_triangles_colors s) = length (sl_mesh_triangles s) \<and>
     length (sl_mesh_triangles_z_order s) = length (sl_mesh_triangles s) \<and>
     list_all (\<lambda>j. j < length (sl_shapes s)) (sl_index s) \<and>
     list_all (\<lambda>g. fst g < length (sl_shapes s)) (sl_mesh_vertices_index s) \<and>
     list_all (\<lambda>g. fst g < length (sl_shapes s)) (sl_mesh_triangles_index s) \<and>
     list_all (block_ok s) [0..<length (sl_shapes s)]"

text \<open>
  The collections that \<open>add\<close>, \<open>remove_one\<close> with renumbering and \<open>edit\<close> build from the
  empty one, with shapes whose meshes are well formed.
\<close>

inductive reachable :: "shapes_list \<Rightarrow> bool" where
  reach_empty: "reachable remove_all"
| reach_add: "reachable s \<Longrightarrow> shape_ok sh \<Longrightarrow> add sh s = Inr s' \<Longrightarrow> reachable s'"
| reach_remove: "reachable s \<Longrightarrow> remove_one i True s = Inr s' \<Longrightarrow> reachable s'"
| reach_edit: "reachable s \<Longrightarrow> shape_ok sh \<Longrightarrow> edit i sh s = Inr s' \<Longrightarrow> reachable s'"

text \<open>The triangles that stay when the shape \<open>index\<close> is removed, before any shift.\<close>

definition kept_triangles :: "nat \<Rightarrow> shapes_list \<Rightarrow> tri list" where
  "kept_triangles index s =
     map fst (filter (\<lambda>(t, g). fst g \<noteq> index)
                (zip (sl_mesh_triangles s) (sl_mesh_triangles_index s)))"

subsection \<open>Two shapes for concrete runs\<close>

definition line_shape :: shape where
  "line_shape =
     \<lparr>sh_data = [(Fin 0, Fin 0), (Fin 1, Fin 0)],
      sh_z_order = 0,
      sh_edge_width = Fin 1,
      sh_edge_color = (Fin 0, Fin 0, Fin 0, Fin 1),
      sh_face_color = (Fin 1, Fin 1, Fin 1, Fin 1),
      sh_edge_vertices = [(Fin 0, Fin 0), (Fin 0, Fin 0), (Fin 1, Fin 0), (Fin 1, Fin 0)],
      sh_edge_offsets = [(Fin 0, Fin (1/2)), (Fin 0, Fin (- 1/2)),
                         (Fin 0, Fin (1/2)), (Fin 0, Fin (- 1/2))],
      sh_edge_triangles = [(0, 1, 3), (0, 2, 3)],
      sh_face_vertices = [],
      sh_face_triangles = []\<rparr>"

definition upright_shape :: shape where
  "upright_shape =
     \<lparr>sh_data = [(Fin 5, Fin 0), (Fin 5, Fin 1)],
      sh_z_order = 1,
      sh_edge_width = Fin 1,
      sh_edge_color = (Fin 0, Fin 0, Fin 0, Fin 1),
      sh_face_color = (Fin 1, Fin 1, Fin 1, Fin 1),
      sh_edge_vertices = [(Fin 5, Fin 0), (Fin 5, Fin 0), (Fin 5, Fin 1), (Fin 5, Fin 1)],
      sh_edge_offsets = [(Fin (- 1/2), Fin 0), (Fin (1/2), Fin 0),
                         (Fin (- 1/2), Fin 0), (Fin (1/2), Fin 0)],
      sh_edge_triangles = [(0, 1, 3), (0, 2, 3)],
      sh_face_vertices = [],
      sh_face_triangles = []\<rparr>"

text \<open>The two shapes added to the empty collection, one after the other.\<close>

definition two_shapes :: shapes_list where
  "two_shapes =
     \<lparr>sl_shapes = [line_shape, upright_shape],
      sl_vertices = [(Fin 0, Fin 0), (Fin 1, Fin 0), (Fin 5, Fin 0), (Fin 5, Fin 1)],
      sl_index = [0, 0, 1, 1],
      sl_z_order = [0, 1],
      sl_mesh_vertices =
        [(Fin 0, Fin (1/2)), (Fin 0, Fin (- 1/2)), (Fin 1, Fin (1/2)), (Fin 1, Fin (- 1/2)),
         (Fin (9/2), Fin 0), (Fin (11/2), Fin 0), (Fin (9/2), Fin 1), (Fin (11/2), Fin 1)],
      sl_mesh_vertices_index =
        [(0, 1), (0, 1), (0, 1), (0, 1), (1, 1), (1, 1), (1, 1), (1, 1)],
      sl_mesh_triangles = [(0, 1, 3), (0, 2, 3), (4, 5, 7), (4, 6, 7)],
      sl_mesh_triangles_index = [(0, 1), (0, 1), (1, 1), (1, 1)],
      sl_mesh_triangles_colors =
        [(Fin 0, Fin 0, Fin 0, Fin 1), (Fin 0, Fin 0, Fin 0, Fin 1),
         (Fin 0, Fin 0, Fin 0, Fin 1), (Fin 0, Fin 0, Fin 0, Fin 1)],
      sl_mesh_triangles_z_order = [0, 0, 1, 1]\<rparr>"

subsection \<open>The block of a shape\<close>

text \<open>
  The first position and the number of the mesh vertices that carry the shape index \<open>j\<close>.
\<close>

definition block_lo :: "shapes_list \<Rightarrow> nat \<Rightarrow> nat" where
  "block_lo s j = hd (removed_positions j (sl_mesh_vertices_index s))"

definition block_len :: "shapes_list \<Rightarrow> nat \<Rightarrow> nat" where
  "block_len s j = length (removed_positions j (sl_mesh_vertices_index s))"

subsection \<open>The arrays over a set of shape indices\<close>

text \<open>
  The part of the invariant that speaks of the flattened arrays only, for the shape
  indices in \<open>L\<close>. After \<open>remove_one\<close> without renumbering the removed index is missing
  from \<open>L\<close> until \<open>add\<close> writes the shape back.
\<close>

definition arrays_ok :: "nat set \<Rightarrow> shapes_list \<Rightarrow> bool" where
  "arrays_ok L s \<longleftrightarrow>
     length (sl_index s) = length (sl_vertices s) \<and>
     length (sl_mesh_vertices_index s) = length (sl_mesh_vertices s) \<and>
     length (sl_mesh_triangles_index s) = length (sl_mesh_triangles s) \<and>
     length (sl_mesh_triangles_colors s) = length (sl_mesh_triangles s) \<and>
     length (sl_mesh_triangles_z_order s) = length (sl_mesh_triangles s) \<and>
     set (sl_index s) \<subseteq> L \<and>
     fst ` set (sl_mesh_vertices_index s) \<subseteq> L \<and>
     fst ` set (sl_mesh_triangles_index s) \<subseteq> L \<and>
     (\<forall>j \<in> L. block_ok s j)"
section \<open>The ellipse outline\<close>

text \<open>
  \<open>np.linspace(start, stop, num)\<close> with the end point included: \<open>num\<close> samples, the
  step is \<open>(stop - start) / (num - 1)\<close>.
\<close>

definition linspace :: "real \<Rightarrow> real \<Rightarrow> nat \<Rightarrow> real list" where
  "linspace start stop num =
     (if num = 1 then [start]
      else map (\<lambda>k. start + real k * ((stop - start) / real (num - 1))) [0..<num])"

text \<open>
  \<open>ShapesData._generate_ellipse\<close> (shapes_data.py), in exact real arithmetic: the centre
  comes first, then one vertex for each of the \<open>num_segments\<close> sampled angles.
\<close>

definition generate_ellipse :: "(real \<times> real) \<times> (real \<times> real) \<Rightarrow> nat \<Rightarrow> (real \<times> real) list" where
  "generate_ellipse corners num_segments =
     (let c0 = fst corners; c1 = snd corners;
          center = ((fst c0 + fst c1) / 2, (snd c0 + snd c1) / 2);
          xr = \<bar>fst c0 - fst center\<bar>;
          yr = \<bar>snd c0 - snd center\<bar>;
          theta = linspace 0 (2 * pi) num_segments
      in center # map (\<lambda>t. (fst center + xr * cos t, snd center + yr * sin t)) theta)"

text \<open>
  The fan of \<open>ShapesData._add_ellipses\<close>: \<open>[[0, i+1, i+2] for i in range(n)]\<close>, whose
  last row gets its third entry overwritten with 1. The source calls it with the class
  constant \<open>_ellipse_segments = 100\<close> only, so the list is never empty there.
\<close>

definition ellipse_fill_faces :: "nat \<Rightarrow> (nat \<times> nat \<times> nat) list" where
  "ellipse_fill_faces n =
     (let faces = map (\<lambda>i. (0, i + 1, i + 2)) [0..<n]
      in if faces = [] then faces
         else butlast faces @ [(fst (last faces), fst (snd (last faces)), 1)])"

definition ellipse_segments :: nat where
  "ellipse_segments = 100"

text \<open>The signed area of a triangle, and the triangle a face selects.\<close>

definition signed_area :: "real \<times> real \<Rightarrow> real \<times> real \<Rightarrow> real \<times> real \<Rightarrow> real" where
  "signed_area a b c =
     ((fst b - fst a) * (snd c - snd a) - (fst c - fst a) * (snd b - snd a)) / 2"

definition face_area :: "(real \<times> real) list \<Rightarrow> nat \<times> nat \<times> nat \<Rightarrow> real" where
  "face_area vs f = signed_area (vs ! fst f) (vs ! fst (snd f)) (vs ! snd (snd f))"

text \<open>
  The closed outline through the boundary vertices \<open>1 .. n\<close> of an ellipse: vertex \<open>k\<close>
  is joined to vertex \<open>k + 1\<close>, and the last one back to vertex 1.
\<close>

definition outline_segments :: "(real \<times> real) list \<Rightarrow> ((real \<times> real) \<times> (real \<times> real)) list" where
  "outline_segments vs =
     (let n = length vs - 1
      in map (\<lambda>k. (vs ! k, vs ! (if k = n then 1 else k + 1))) [1..<n + 1])"

definition proper_segments :: "(real \<times> real) list \<Rightarrow> ((real \<times> real) \<times> (real \<times> real)) list" where
  "proper_segments vs = filter (\<lambda>s. fst s \<noteq> snd s) (outline_segments vs)"

section \<open>Opacity: the error and the state\<close>

lemma update_each_no_value_error: "fst (update_each is v d) \<noteq> Some ValueError"
  by (induction "is" arbitrary: d)
     (auto simp: update_opacity_def split: sum.splits if_splits)

lemma update_each_valid: "\<forall>i \<in> set is. i < length (d_shape_opacity d) \<Longrightarrow> fst (update_each is v d) = None"
  by (induction "is" arbitrary: d) (auto simp: update_opacity_def)

text \<open>
  C8. Setting the opacity raises ValueError exactly when the value is outside [0, 1]
  (NaN included), and then the stored opacity and the opacity of every shape are what
  they were. When the indices the setter walks over are shape indices (all of them
  under \<open>apply_all\<close>, the selection otherwise), it raises nothing else.
\<close>

theorem set_opacity_raises_iff:
  "(fst (set_opacity v s) = Some ValueError \<longleftrightarrow> \<not> (fle (Fin 0) v \<and> fle v (Fin 1))) \<and>
   (fst (set_opacity v s) = Some ValueError \<longrightarrow> snd (set_opacity v s) = s) \<and>
   (apply_all s \<or> (\<forall>i \<in> set (selected_shapes s). i < length (d_shape_opacity (data s))) \<longrightarrow>
      (fst (set_opacity v s) \<noteq> None \<longleftrightarrow> \<not> (fle (Fin 0) v \<and> fle v (Fin 1))))"
proof -
  let ?ok = "fle (Fin 0) v \<and> fle v (Fin 1)"
  let ?ix = "if apply_all s then [0..<length (d_shape_opacity (data s))] else selected_shapes s"
  have bad: "\<not> ?ok \<Longrightarrow> set_opacity v s = (Some ValueError, s)"
    by (simp add: set_opacity_def)
  have good: "?ok \<Longrightarrow> fst (set_opacity v s) = fst (update_each ?ix v (data s))"
    by (simp add: set_opacity_def Let_def split: prod.splits)
  have a: "fst (set_opacity v s) = Some ValueError \<longleftrightarrow> \<not> ?ok"
  proof (cases ?ok)
    case True
    with good have "fst (set_opacity v s) = fst (update_each ?ix v (data s))"
      by blast
    with True show ?thesis
      using update_each_no_value_error [of ?ix v "data s"] by simp
  next
    case False
    with bad show ?thesis by simp
  qed
  have b: "fst (set_opacity v s) = Some ValueError \<longrightarrow> snd (set_opacity v s) = s"
    using a bad by auto
  have c: "fst (set_opacity v s) \<noteq> None \<longleftrightarrow> \<not> ?ok"
    if sel: "apply_all s \<or> (\<forall>i \<in> set (selected_shapes s). i < length (d_shape_opacity (data s)))"
  proof (cases ?ok)
    case True
    from sel have "\<forall>i \<in> set ?ix. i < length (d_shape_opacity (data s))"
      by auto
    then have "fst (update_each ?ix v (data s)) = None"
      by (rule update_each_valid)
    with True good show ?thesis by simp
  next
    case False
    with bad show ?thesis by simp
  qed
  from a b c show ?thesis by blast
qed

theorem set_opacity_raises_iff_witness:
  "fst (set_opacity (Fin 2) demo_layer) = Some ValueError \<and>
   snd (set_opacity (Fin 2) demo_layer) = demo_layer \<and>
   fst (set_opacity (Fin (1/2)) demo_layer) = None"
proof -
  have sel: "apply_all demo_layer \<or>
      (\<forall>i \<in> set (selected_shapes demo_layer). i < length (d_shape_opacity (data demo_layer)))"
    by (simp add: demo_layer_def)
  have out: "\<not> (fle (Fin 0) (Fin 2) \<and> fle (Fin 2) (Fin 1))"
    by simp
  have within: "fle (Fin 0) (Fin (1/2)) \<and> fle (Fin (1/2)) (Fin 1)"
    by simp
  from set_opacity_raises_iff [of "Fin 2" demo_layer] out
  have a: "fst (set_opacity (Fin 2) demo_layer) = Some ValueError"
    and b: "snd (set_opacity (Fin 2) demo_layer) = demo_layer"
    by blast+
  from set_opacity_raises_iff [of "Fin (1/2)" demo_layer] sel within
  have c: "fst (set_opacity (Fin (1/2)) demo_layer) = None"
    by blast
  from a b c show ?thesis by blast
qed
section \<open>The mode setter\<close>

lemma mode_settings_pan_zoom: "mode_settings ''pan/zoom'' = Some (''standard'', True, '''')"
  by (simp add: mode_settings_def)

lemma pan_zoom_not_vertex_editing: "\<not> vertex_editing ''pan/zoom''"
  by (simp add: vertex_editing_def)

lemma set_mode_leaving:
  assumes "m \<noteq> mode s" "mode_settings m = Some (c, i, h)"
    "\<not> (vertex_editing m \<and> vertex_editing (mode s))"
  shows "set_mode data_remove data_edit m s =
    finish_drawing data_remove data_edit
      (s\<lparr>cursor := c, interactive := i, help_text := h, status := m, mode := m\<rparr>)"
proof -
  from assms(3) have "(if vertex_editing m \<and> vertex_editing (mode s) then x else y) = y" for x y :: "error option \<times> layer"
    by auto
  with assms(1,2) show ?thesis
    by (simp add: set_mode_def Let_def)
qed

lemma finish_drawing_not_drawing:
  assumes "mode s \<noteq> ''add_path''" "mode s \<noteq> ''add_polygon''"
  shows "finish_drawing data_remove data_edit s =
    (None, unselect (s\<lparr>ready_to_create := False, is_moving := False, selected_shapes := [],
                 selected_box := None, drag_start := None, drag_box := None,
                 fixed_vertex := None, selected_vertex := (None, None),
                 hover_shapes := (None, None), creating := False\<rparr>))"
  using assms by (simp add: finish_drawing_def Let_def)

lemma unselect_fields:
  "data (unselect s) = data s" "mode (unselect s) = mode s"
  "selected_shapes (unselect s) = selected_shapes s" "creating (unselect s) = creating s"
  "selected_box (unselect s) = selected_box s" "drag_start (unselect s) = drag_start s"
  "drag_box (unselect s) = drag_box s" "fixed_vertex (unselect s) = fixed_vertex s"
  "selected_vertex (unselect s) = selected_vertex s" "hover_shapes (unselect s) = hover_shapes s"
  "is_moving (unselect s) = is_moving s" "ready_to_create (unselect s) = ready_to_create s"
  by (simp_all add: unselect_def)

lemma set_mode_vertex_editing_keeps_selection:
  assumes "vertex_editing m" "vertex_editing (mode s)"
  shows "fst (set_mode data_remove data_edit m s) = None \<and>
         selected_shapes (snd (set_mode data_remove data_edit m s)) = selected_shapes s \<and>
         mode (snd (set_mode data_remove data_edit m s)) = m"
proof (cases "m = mode s")
  case True
  then show ?thesis by (simp add: set_mode_def)
next
  case False
  from assms(1) have "mode_settings m \<noteq> None"
    unfolding vertex_editing_def by (elim disjE) (simp_all add: mode_settings_def)
  then obtain c i h where "mode_settings m = Some (c, i, h)"
    by (cases "mode_settings m") auto
  with False assms show ?thesis
    by (simp add: set_mode_def Let_def)
qed

lemma drawing_layer_mode: "mode drawing_layer = ''add_path''"
  by (simp add: drawing_layer_def)

lemma drawing_layer_data: "data drawing_layer = drawing_data"
  by (simp add: drawing_layer_def)

lemma finish_drawing_resets:
  assumes "fst (finish_drawing data_remove data_edit s) = None"
  shows "selected_shapes (snd (finish_drawing data_remove data_edit s)) = [] \<and>
         selected_box (snd (finish_drawing data_remove data_edit s)) = None \<and>
         drag_start (snd (finish_drawing data_remove data_edit s)) = None \<and>
         drag_box (snd (finish_drawing data_remove data_edit s)) = None \<and>
         fixed_vertex (snd (finish_drawing data_remove data_edit s)) = None \<and>
         selected_vertex (snd (finish_drawing data_remove data_edit s)) = (None, None) \<and>
         hover_shapes (snd (finish_drawing data_remove data_edit s)) = (None, None) \<and>
         \<not> is_moving (snd (finish_drawing data_remove data_edit s)) \<and>
         \<not> ready_to_create (snd (finish_drawing data_remove data_edit s)) \<and>
         \<not> creating (snd (finish_drawing data_remove data_edit s))"
proof -
  let ?s1 = "s\<lparr>ready_to_create := False, is_moving := False, selected_shapes := [],
                 selected_box := None, drag_start := None, drag_box := None,
                 fixed_vertex := None, selected_vertex := (None, None),
                 hover_shapes := (None, None)\<rparr>"
  from assms obtain d3 where
    "finish_drawing data_remove data_edit s = (None, unselect (?s1\<lparr>data := d3, creating := False\<rparr>))"
    unfolding finish_drawing_def Let_def
    by (simp split: sum.splits)
  then show ?thesis
    by (simp add: unselect_fields)
qed

lemma finish_drawing_discards_short_path:
  assumes "data_remove (Some 0) drawing_data = Inr d"
  shows "fst (finish_drawing data_remove data_edit drawing_layer) = None \<and>
         data (snd (finish_drawing data_remove data_edit drawing_layer)) = d"
proof -
  have v: "vertices_of (Some 0) drawing_data = Inr [(Fin 1, Fin 1), (Fin 1, Fin 1)]"
    by (simp add: vertices_of_def drawing_data_def)
  have m: "mode drawing_layer = ''add_path''" "creating drawing_layer"
    "selected_vertex drawing_layer = (Some 0, Some 1)" "data drawing_layer = drawing_data"
    by (simp_all add: drawing_layer_def)
  show ?thesis
    using assms by (simp add: finish_drawing_def Let_def m v unselect_fields)
qed

text \<open>
  C9. A transition between two vertex-editing modes keeps the selection
  (\<open>set_mode_vertex_editing_keeps_selection\<close>), and every other transition that
  completes empties the selection, clears the drag anchors and the creating flag
  (\<open>set_mode_leaving\<close>, \<open>finish_drawing_resets\<close>). The in-progress path is another
  matter: the setter stores the new mode before it calls \<open>_finish_drawing\<close>, whose tests
  read \<open>self.mode\<close>. Leaving \<open>add_path\<close> for \<open>pan/zoom\<close> while a path of two coinciding
  vertices is being drawn therefore calls neither \<open>data_remove\<close> nor \<open>data_edit\<close>: the call
  returns normally, the flags are reset, and the degenerate path is still in the data.
  The same \<open>_finish_drawing\<close> called in the mode \<open>add_path\<close> itself, as the Escape key
  does, removes it (\<open>finish_drawing_discards_short_path\<close>).
\<close>

theorem set_mode_keeps_unfinished_path:
  "fst (set_mode data_remove data_edit ''pan/zoom'' drawing_layer) = None \<and>
   mode (snd (set_mode data_remove data_edit ''pan/zoom'' drawing_layer)) = ''pan/zoom'' \<and>
   selected_shapes (snd (set_mode data_remove data_edit ''pan/zoom'' drawing_layer)) = [] \<and>
   creating (snd (set_mode data_remove data_edit ''pan/zoom'' drawing_layer)) = False \<and>
   data (snd (set_mode data_remove data_edit ''pan/zoom'' drawing_layer)) = data drawing_layer \<and>
   vertices_of (Some 0) (data (snd (set_mode data_remove data_edit ''pan/zoom'' drawing_layer))) =
     Inr [(Fin 1, Fin 1), (Fin 1, Fin 1)]"
proof -
  let ?s1 = "drawing_layer\<lparr>cursor := ''standard'', interactive := True, help_text := '''',
      status := ''pan/zoom'', mode := ''pan/zoom''\<rparr>"
  have a: "set_mode data_remove data_edit ''pan/zoom'' drawing_layer = finish_drawing data_remove data_edit ?s1"
    by (rule set_mode_leaving)
       (simp_all add: drawing_layer_mode mode_settings_pan_zoom pan_zoom_not_vertex_editing)
  have b: "finish_drawing data_remove data_edit ?s1 =
    (None, unselect (?s1\<lparr>ready_to_create := False, is_moving := False, selected_shapes := [],
                 selected_box := None, drag_start := None, drag_box := None,
                 fixed_vertex := None, selected_vertex := (None, None),
                 hover_shapes := (None, None), creating := False\<rparr>))"
    by (rule finish_drawing_not_drawing) simp_all
  have v: "vertices_of (Some 0) drawing_data = Inr [(Fin 1, Fin 1), (Fin 1, Fin 1)]"
    by (simp add: vertices_of_def drawing_data_def)
  show ?thesis
    unfolding a b by (simp add: unselect_fields drawing_layer_data v)
qed
section \<open>Shapes in a box\<close>

text \<open>
  C7. \<open>_shapes_in_box\<close> does not test each corner against both bounds: the upper bound
  is always tested on corner 0 (\<open>box[1] >= triangles[:,0,:]\<close>) and only the lower bound
  on corner \<open>i\<close>. For the triangle \<open>(0,0), (20,20), (0,20)\<close> and the box from \<open>(5,5)\<close> to
  \<open>(10,10)\<close>, corner 0 is below the upper bound and corner 1 above the lower bound, so
  the shape is reported although none of its corners lies in the box.
\<close>

theorem shapes_in_box_reports_outside_corner:
  "shapes_in_box ((Fin 5, Fin 5), (Fin 10, Fin 10)) wide_layer = Inr [0] \<and>
   shapes_with_corner_in_box ((Fin 5, Fin 5), (Fin 10, Fin 10)) wide_layer = Inr []"
  by (simp add: shapes_in_box_def shapes_with_corner_in_box_def wide_layer_def wide_data_def
      demo_layer_def create_box_0_4_def np_min2_def np_max2_def mesh_corners_def
      corners_of_def np_take_def np_mask_def points_inside_def corner_in_box_def vge_def
      fge_def Let_def)
section \<open>The shape under the cursor\<close>

lemma np_take_in_range: "0 \<le> i \<Longrightarrow> i < int (length xs) \<Longrightarrow> np_take xs i = Inr (xs ! nat i)"
  by (simp add: np_take_def)

lemma collect_map_Inr: "(\<And>x. x \<in> set xs \<Longrightarrow> f x = Inr (g x)) \<Longrightarrow> collect (map f xs) = Inr (map g xs)"
  by (induction xs) simp_all

lemma mesh_ok_corners_of:
  assumes "mesh_ok d" "t \<in> set (d_mesh_triangles d)"
  shows "corners_of (d_mesh_vertices d) t = Inr (corners_at (d_mesh_vertices d) t)"
  using assms by (simp add: mesh_ok_def corners_of_def corners_at_def np_take_in_range)

lemma mesh_ok_mesh_corners:
  assumes "mesh_ok d"
  shows "mesh_corners d = Inr (map (corners_at (d_mesh_vertices d)) (d_mesh_triangles d))"
  unfolding mesh_corners_def
  by (rule collect_map_Inr) (rule mesh_ok_corners_of [OF assms])

lemma set_masked:
  assumes "length ms = length xs"
  shows "set (map fst (filter snd (zip xs ms))) = {xs ! q | q. q < length xs \<and> ms ! q}"
proof -
  have "set (filter snd (zip xs ms)) = {(xs ! q, ms ! q) | q. q < length xs \<and> ms ! q}"
    using assms by (auto simp: set_zip)
  then have "set (map fst (filter snd (zip xs ms))) =
      fst ` {(xs ! q, ms ! q) | q. q < length xs \<and> ms ! q}"
    by simp
  also have "\<dots> = {xs ! q | q. q < length xs \<and> ms ! q}"
    by force
  finally show ?thesis .
qed

lemma list_index_found: "list_index zs m = Inr k \<Longrightarrow> k < length zs \<and> zs ! k = m"
  by (induction zs arbitrary: k) (auto split: if_splits sum.splits)

lemma list_index_member: "m \<in> set zs \<Longrightarrow> \<exists>k. list_index zs m = Inr k"
  by (induction zs) (auto split: sum.splits)

lemma argsort_hd_least:
  assumes "ks \<noteq> []"
  shows "hd (argsort ks) < length ks \<and> (\<forall>j < length ks. ks ! hd (argsort ks) \<le> ks ! j)"
proof -
  let ?a = "argsort ks"
  have set_a: "set ?a = {0..<length ks}"
    by (simp add: argsort_def)
  with assms have ne: "?a \<noteq> []" by auto
  then have hd_in: "hd ?a \<in> set ?a" by simp
  have srt: "sorted (map (\<lambda>i. ks ! i) ?a)"
    by (simp add: argsort_def)
  have least: "ks ! hd ?a \<le> ks ! j" if "j < length ks" for j
  proof -
    from that set_a have "j \<in> set ?a" by simp
    from ne obtain x xs where a: "?a = x # xs" by (cases ?a) auto
    with srt have "\<forall>y \<in> set xs. ks ! x \<le> ks ! y" by simp
    with a \<open>j \<in> set ?a\<close> show ?thesis by auto
  qed
  from hd_in set_a least show ?thesis by simp
qed

text \<open>
  What \<open>_shape_at\<close> computes when no shape is selected: no shape when no mesh triangle,
  fill or edge, contains the point, and otherwise the shape, among those whose mesh
  contains the point, that is listed first in \<open>_z_order\<close>. The mesh arrays are taken to
  fit together (\<open>mesh_ok\<close>) and every shape that is hit to occur in \<open>_z_order\<close>, since
  \<open>z_list.index\<close> raises otherwise; \<open>inside\<close> is any triangle test. How \<open>_z_order\<close> is
  ordered is decided by the class that maintains it, which is not among the sources.
\<close>

lemma shape_at_first_listed:
  assumes sel: "selected_shapes s = []"
    and ok: "mesh_ok (data s)"
    and listed: "shapes_containing inside p (data s) \<subseteq> set (d_z_order (data s))"
  shows "(shapes_containing inside p (data s) = {} \<longrightarrow>
            shape_at handle inside p s = Inr (None, None)) \<and>
         (shapes_containing inside p (data s) \<noteq> {} \<longrightarrow>
            (\<exists>k \<in> shapes_containing inside p (data s). \<exists>i.
               shape_at handle inside p s = Inr (Some k, None) \<and>
               list_index (d_z_order (data s)) k = Inr i \<and>
               (\<forall>k' \<in> shapes_containing inside p (data s).
                  \<exists>j. list_index (d_z_order (data s)) k' = Inr j \<and> i \<le> j)))"
proof -
  define vs where "vs = d_mesh_vertices (data s)"
  define tris where "tris = d_mesh_triangles (data s)"
  define tags where "tags = d_mesh_triangles_index (data s)"
  define zo where "zo = d_z_order (data s)"
  define z where "z = d_z_index (data s)"
  define hit :: "vec \<times> vec \<times> vec \<Rightarrow> bool"
    where "hit = (\<lambda>(a, b, c). inside (vsub a p, vsub b p, vsub c p))"
  define cs where "cs = map (corners_at vs) tris"
  define shapes where "shapes = map fst (filter snd (zip tags (map hit cs)))"
  define indices where "indices = map fst shapes"
  define H where "H = shapes_containing inside p (data s)"
  from ok have len: "length tags = length tris"
    by (simp add: mesh_ok_def tags_def tris_def)
  have len_cs: "length cs = length tris"
    by (simp add: cs_def)
  have corners: "mesh_corners (data s) = Inr cs"
    unfolding cs_def vs_def tris_def using ok by (rule mesh_ok_mesh_corners)
  have masked: "np_mask tags (map hit cs) = Inr shapes"
    using len len_cs by (simp add: np_mask_def shapes_def)
  have set_shapes: "set shapes = {tags ! q | q. q < length tags \<and> map hit cs ! q}"
    unfolding shapes_def using len len_cs by (intro set_masked) simp
  have co: "corners_of vs (tris ! q) = Inr (cs ! q)" if "q < length tris" for q
    using mesh_ok_corners_of [OF ok, of "tris ! q"] that
    by (simp add: cs_def vs_def tris_def)
  have eqv: "(\<exists>a b c. corners_of vs (tris ! q) = Inr (a, b, c) \<and>
                inside (vsub a p, vsub b p, vsub c p)) \<longleftrightarrow> map hit cs ! q"
    if "q < length tris" for q
    using co [OF that] that len_cs by (cases "cs ! q") (auto simp: hit_def)
  have H_set: "H = set indices"
  proof -
    have "H = {fst (tags ! q) | q. q < length tris \<and>
        (\<exists>a b c. corners_of vs (tris ! q) = Inr (a, b, c) \<and>
                inside (vsub a p, vsub b p, vsub c p))}"
      unfolding H_def shapes_containing_def vs_def tris_def tags_def by blast
    also have "\<dots> = {fst (tags ! q) | q. q < length tris \<and> map hit cs ! q}"
      using eqv by blast
    also have "\<dots> = fst ` {tags ! q | q. q < length tags \<and> map hit cs ! q}"
      unfolding len by blast
    also have "\<dots> = fst ` set shapes"
      by (simp only: set_shapes)
    also have "\<dots> = set indices"
      by (simp only: indices_def set_map)
    finally show ?thesis .
  qed
  have unfolded: "shape_at handle inside p s =
     (if length shapes > 0 then
        case collect (map (list_index zo) indices) of
          Inl e \<Rightarrow> Inl e
        | Inr order_indices \<Rightarrow>
            Inr (Some (hd (map (\<lambda>i. indices ! i) (argsort order_indices))), None)
      else Inr (None, None))"
    unfolding shape_at_def
    by (simp only: sel corners sum.case masked [unfolded hit_def tags_def]
        Let_def indices_def zo_def simp_thms if_False)
  show ?thesis
  proof (cases "shapes = []")
    case True
    then have "set indices = {}"
      by (simp add: indices_def)
    with H_set have "H = {}" by (simp only:)
    moreover have "shape_at handle inside p s = Inr (None, None)"
      unfolding unfolded using True by simp
    ultimately show ?thesis unfolding H_def by simp
  next
    case False
    then have ne: "indices \<noteq> []" by (simp add: indices_def)
    define g where "g = (\<lambda>m. projr (list_index zo m))"
    define order where "order = map g indices"
    have in_zo: "m \<in> set zo" if "m \<in> set indices" for m
      using that H_set listed unfolding H_def zo_def by blast
    have found: "list_index zo m = Inr (g m)" if "m \<in> set indices" for m
      using list_index_member [OF in_zo [OF that]] by (auto simp: g_def)
    have ord: "collect (map (list_index zo) indices) = Inr order"
      unfolding order_def by (rule collect_map_Inr) (rule found)
    define i0 where "i0 = hd (argsort order)"
    from ne have one: "order \<noteq> []" by (simp add: order_def)
    have len_order: "length order = length indices" by (simp add: order_def)
    from argsort_hd_least [OF one]
    have i0: "i0 < length indices" and least: "\<forall>j < length indices. order ! i0 \<le> order ! j"
      by (simp_all add: i0_def len_order)
    have "length (argsort order) = length order"
      by (simp add: argsort_def)
    with one have "argsort order \<noteq> []"
      by auto
    then have hd_map: "hd (map (\<lambda>i. indices ! i) (argsort order)) = indices ! i0"
      by (simp add: hd_map i0_def)
    have res: "shape_at handle inside p s = Inr (Some (indices ! i0), None)"
      unfolding unfolded using False ord hd_map by simp
    have k_in: "indices ! i0 \<in> H"
      using i0 H_set by (metis nth_mem)
    have zo_found: "list_index zo (indices ! j) = Inr (order ! j)"
      if "j < length indices" for j
    proof -
      from that have "indices ! j \<in> set indices" by (rule nth_mem)
      from found [OF this] show ?thesis
        using that by (simp add: order_def)
    qed
    have first: "list_index zo (indices ! i0) = Inr (order ! i0)"
      using zo_found [OF i0] .
    have best: "\<exists>j. list_index zo k' = Inr j \<and> order ! i0 \<le> j" if "k' \<in> H" for k'
    proof -
      from that H_set obtain j where j: "j < length indices" "k' = indices ! j"
        by (auto simp: in_set_conv_nth)
      from least j have le: "order ! i0 \<le> order ! j" by simp
      from zo_found [OF j(1)] le show ?thesis unfolding j(2) by blast
    qed
    from k_in have "H \<noteq> {}" by auto
    with res k_in first best show ?thesis unfolding H_def zo_def by blast
  qed
qed

lemma demo_mesh_ok: "mesh_ok (data demo_layer)"
  by (simp add: mesh_ok_def demo_layer_def demo_data_def)

lemma demo_contains: "1 \<in> shapes_containing inside_triangle (Fin (1/2), Fin (1/2)) (data demo_layer)"
proof -
  have c: "corners_of (d_mesh_vertices (data demo_layer)) (d_mesh_triangles (data demo_layer) ! 1) =
      Inr ((Fin 0, Fin 0), (Fin 2, Fin 0), (Fin 0, Fin 2))"
    by (simp add: demo_layer_def demo_data_def corners_of_def np_take_def)
  have i: "inside_triangle (vsub (Fin 0, Fin 0) (Fin (1/2), Fin (1/2)),
      vsub (Fin 2, Fin 0) (Fin (1/2), Fin (1/2)), vsub (Fin 0, Fin 2) (Fin (1/2), Fin (1/2)))"
    by (simp add: inside_triangle_def edge_side_def vsub_def fsub_def Let_def)
  have t: "fst (d_mesh_triangles_index (data demo_layer) ! 1) = 1"
    "(1::nat) < length (d_mesh_triangles (data demo_layer))"
    by (simp_all add: demo_layer_def demo_data_def)
  from c i t have "\<exists>q a b c. (1::nat) = fst (d_mesh_triangles_index (data demo_layer) ! q) \<and>
      q < length (d_mesh_triangles (data demo_layer)) \<and>
      corners_of (d_mesh_vertices (data demo_layer)) (d_mesh_triangles (data demo_layer) ! q) =
        Inr (a, b, c) \<and>
      inside_triangle (vsub a (Fin (1/2), Fin (1/2)), vsub b (Fin (1/2), Fin (1/2)),
        vsub c (Fin (1/2), Fin (1/2)))"
    by (intro exI [of _ "1::nat"] exI conjI) simp_all
  then show ?thesis
    unfolding shapes_containing_def by (rule CollectI)
qed

lemma demo_shape_at: "shape_at None inside_triangle (Fin (1/2), Fin (1/2)) demo_layer = Inr (Some 1, None)"
  by (simp add: shape_at_def demo_layer_def demo_data_def mesh_corners_def corners_of_def
      np_take_def np_mask_def inside_triangle_def edge_side_def vsub_def fsub_def Let_def
      argsort_def)
section \<open>Stroking an open path without bevels\<close>

lemma run_steps_append:
  "run_steps f (xs @ ys) st =
     (case run_steps f xs st of Inl e \<Rightarrow> Inl e | Inr st' \<Rightarrow> run_steps f ys st')"
  by (induction xs arbitrary: st) (auto split: sum.splits)

lemma quad_faces_two:
  assumes "m + 3 < length vo"
  shows "\<exists>fs. quad_faces vo m prev cur = Inr fs \<and> length fs = 2"
  using assms by (simp add: quad_faces_def py_nth_def)

lemma length_off_pairs: "length (off_pairs ms k) = 2 * k"
  by (induction k) (simp_all add: off_pairs_def)

lemma length_twice: "length (twice ps k) = 2 * k"
  by (induction k) (simp_all add: twice_def)

lemma off_pairs_Suc: "off_pairs ms (Suc k) = off_pairs ms k @ [vneg (ms ! k), ms ! k]"
  by (simp add: off_pairs_def)

lemma twice_Suc: "twice ps (Suc k) = twice ps k @ [ps ! k, ps ! k]"
  by (simp add: twice_def)

lemma twice_all: "twice ps (length ps) = concat (map (\<lambda>p. [p, p]) ps)"
proof -
  have "map (\<lambda>i. [ps ! i, ps ! i]) [0..<length ps] = map (\<lambda>p. [p, p]) ps"
    by (intro nth_equalityI) simp_all
  then show ?thesis by (simp only: twice_def)
qed

lemma open_step_first:
  "tri_step False limit False fp fn ms mls 0 ([], [], [], 0) =
     Inr (off_pairs ms 1, twice fp 1, [], 0)"
  by (simp add: tri_step_def off_pairs_def twice_def Let_def)

lemma open_step_inner:
  assumes "0 < i" "i \<noteq> length fp - 1" "\<not> fgt (mls ! i) limit"
    and "length faces = 2 * (i - 1)"
  shows "\<exists>faces'. tri_step False limit False fp fn ms mls i
            (off_pairs ms i, twice fp i, faces, 2 * (i - 1)) =
          Inr (off_pairs ms (Suc i), twice fp (Suc i), faces', 2 * i) \<and>
          length faces' = 2 * i"
proof -
  have "2 * (i - 1) + 3 < length (off_pairs ms i @ [vneg (ms ! i), ms ! i])"
    using assms(1) by (simp add: length_off_pairs)
  from quad_faces_two [OF this] obtain fs where
    fs: "quad_faces (off_pairs ms i @ [vneg (ms ! i), ms ! i]) (2 * (i - 1)) (fp ! (i - 1)) (fp ! i) = Inr fs"
      "length fs = 2"
    by blast
  have m: "2 * (i - 1) + 2 = 2 * i" using assms(1) by simp
  show ?thesis
    using assms fs m by (simp add: tri_step_def off_pairs_Suc twice_Suc Let_def)
qed

lemma open_step_last:
  assumes "0 < i" "i = length fp - 1" "length faces = 2 * (i - 1)"
  shows "\<exists>faces'. tri_step False limit False fp fn ms mls i
            (off_pairs ms i, twice fp i, faces, 2 * (i - 1)) =
          Inr (off_pairs ms (Suc i), twice fp (Suc i), faces', 2 * (i - 1)) \<and>
          length faces' = 2 * i"
proof -
  have "2 * (i - 1) + 3 < length (off_pairs ms i @ [vneg (ms ! i), ms ! i])"
    using assms(1) by (simp add: length_off_pairs)
  from quad_faces_two [OF this] obtain fs where
    fs: "quad_faces (off_pairs ms i @ [vneg (ms ! i), ms ! i]) (2 * (i - 1)) (fp ! (i - 1)) (fp ! i) = Inr fs"
      "length fs = 2"
    by blast
  have m: "2 * (i - 1) + 2 = 2 * i" using assms(1) by simp
  show ?thesis
    using assms fs m by (simp add: tri_step_def off_pairs_Suc twice_Suc Let_def)
qed

lemma open_loop_prefix:
  assumes nb: "\<forall>i. 0 < i \<and> i + 1 < length fp \<longrightarrow> \<not> fgt (mls ! i) limit"
    and k: "0 < k" "k < length fp"
  shows "\<exists>faces. run_steps (tri_step False limit False fp fn ms mls) [0..<k] ([], [], [], 0) =
           Inr (off_pairs ms k, twice fp k, faces, 2 * (k - 1)) \<and> length faces = 2 * (k - 1)"
  using k
proof (induction k)
  case 0
  then show ?case by simp
next
  case (Suc k)
  show ?case
  proof (cases "k = 0")
    case True
    then show ?thesis by (simp add: open_step_first)
  next
    case False
    with Suc obtain faces where
      run: "run_steps (tri_step False limit False fp fn ms mls) [0..<k] ([], [], [], 0) =
           Inr (off_pairs ms k, twice fp k, faces, 2 * (k - 1))" and len: "length faces = 2 * (k - 1)"
      by auto
    from False Suc.prems nb have "\<not> fgt (mls ! k) limit" "k \<noteq> length fp - 1" "0 < k"
      by auto
    from open_step_inner [OF this(3,2,1) len, of fn ms] obtain faces' where
      "tri_step False limit False fp fn ms mls k (off_pairs ms k, twice fp k, faces, 2 * (k - 1)) =
          Inr (off_pairs ms (Suc k), twice fp (Suc k), faces', 2 * k)" "length faces' = 2 * k"
      by blast
    with run show ?thesis
      by (simp add: run_steps_append)
  qed
qed

lemma open_loop:
  assumes nb: "\<forall>i. 0 < i \<and> i + 1 < length fp \<longrightarrow> \<not> fgt (mls ! i) limit"
    and n: "2 \<le> length fp"
  shows "\<exists>faces m. run_steps (tri_step False limit False fp fn ms mls) [0..<length fp] ([], [], [], 0) =
           Inr (off_pairs ms (length fp), twice fp (length fp), faces, m) \<and>
           length faces = 2 * (length fp - 1)"
proof -
  define k where "k = length fp - 1"
  from n have k: "0 < k" "k < length fp" "length fp = Suc k" by (simp_all add: k_def)
  from open_loop_prefix [OF nb k(1,2), of fn ms] obtain faces where
    run: "run_steps (tri_step False limit False fp fn ms mls) [0..<k] ([], [], [], 0) =
           Inr (off_pairs ms k, twice fp k, faces, 2 * (k - 1))" and len: "length faces = 2 * (k - 1)"
    by blast
  from open_step_last [OF k(1) k_def len, of limit fn ms mls] obtain faces' where
    "tri_step False limit False fp fn ms mls k (off_pairs ms k, twice fp k, faces, 2 * (k - 1)) =
          Inr (off_pairs ms (Suc k), twice fp (Suc k), faces', 2 * (k - 1))" "length faces' = 2 * k"
    by blast
  with run k show ?thesis
    by (simp add: run_steps_append)
qed

subsection \<open>Unit normals\<close>

lemma finite_pointE:
  assumes "finite_point p"
  obtains x y where "p = (Fin x, Fin y)"
proof -
  from assms have "is_fin (fst p)" "is_fin (snd p)" by (simp_all add: finite_point_def)
  then obtain x y where "fst p = Fin x" "snd p = Fin y"
    by (cases "fst p"; cases "snd p") simp_all
  then have "p = (Fin x, Fin y)" by (cases p) simp
  then show ?thesis by (rule that)
qed

lemma segment_normal_Fin:
  "segment_normal (Fin ax, Fin ay) (Fin bx, Fin by) =
     vdivs (Fin (by - ay), Fin (ax - bx)) (Fin (sqrt ((by - ay) * (by - ay) + (ax - bx) * (ax - bx))))"
proof -
  have "0 \<le> (by - ay) * (by - ay) + (ax - bx) * (ax - bx)"
    by (simp add: add_nonneg_nonneg)
  then show ?thesis
    by (simp add: segment_normal_def vsub_def fsub_def vnorm_def Let_def not_less [symmetric])
qed

lemma segment_normal_unit:
  assumes "finite_point a" "finite_point b" "a \<noteq> b"
  shows "\<exists>x y. segment_normal a b = (Fin x, Fin y) \<and> x * x + y * y = 1"
proof -
  from assms(1) obtain ax ay where a: "a = (Fin ax, Fin ay)" by (rule finite_pointE)
  from assms(2) obtain bx "by" where b: "b = (Fin bx, Fin by)" by (rule finite_pointE)
  define q where "q = (by - ay) * (by - ay) + (ax - bx) * (ax - bx)"
  from assms(3) a b have "by - ay \<noteq> 0 \<or> ax - bx \<noteq> 0" by auto
  then have qpos: "0 < q"
    unfolding q_def by (metis add_pos_nonneg add_nonneg_pos zero_le_square not_real_square_gt_zero)
  then have sq: "sqrt q \<noteq> 0" "sqrt q * sqrt q = q" by simp_all
  have n: "segment_normal a b = (Fin ((by - ay) / sqrt q), Fin ((ax - bx) / sqrt q))"
    unfolding a b segment_normal_Fin q_def [symmetric] using sq(1) by (simp add: vdivs_def)
  have split: "(u / s) * (u / s) + (v / s) * (v / s) = (u * u + v * v) / (s * s)"
    for u v s :: real
    by (simp add: add_divide_distrib)
  have "((by - ay) / sqrt q) * ((by - ay) / sqrt q) +
      ((ax - bx) / sqrt q) * ((ax - bx) / sqrt q) = q / (sqrt q * sqrt q)"
    by (simp only: split q_def)
  also have "\<dots> = 1" using sq qpos by simp
  finally show ?thesis using n by blast
qed

lemma segment_normal_flip:
  assumes "finite_point a" "finite_point b" "a \<noteq> b"
  shows "vneg (segment_normal b a) = segment_normal a b"
proof -
  from assms(1) obtain ax ay where a: "a = (Fin ax, Fin ay)" by (rule finite_pointE)
  from assms(2) obtain bx "by" where b: "b = (Fin bx, Fin by)" by (rule finite_pointE)
  define q where "q = (by - ay) * (by - ay) + (ax - bx) * (ax - bx)"
  have q': "(ay - by) * (ay - by) + (bx - ax) * (bx - ax) = q"
    by (simp add: q_def algebra_simps)
  from assms(3) a b have "by - ay \<noteq> 0 \<or> ax - bx \<noteq> 0" by auto
  then have qpos: "0 < q"
    unfolding q_def by (metis add_pos_nonneg add_nonneg_pos zero_le_square not_real_square_gt_zero)
  then have sq: "sqrt q \<noteq> 0" by simp
  show ?thesis
    unfolding a b segment_normal_Fin q' q_def [symmetric] using sq
    by (simp add: vdivs_def vneg_def minus_divide_left)
qed

lemma miter_of_equal_normals:
  assumes "x * x + y * y = 1"
  shows "vdivs (vmean [(Fin x, Fin y), (Fin x, Fin y)])
           (vdot (vmean [(Fin x, Fin y), (Fin x, Fin y)]) (Fin x, Fin y)) = (Fin x, Fin y)"
  using assms by (simp add: vmean_def vadd_def vdivs_def vdot_def)

subsection \<open>The normals of an open path\<close>

lemma open_normals:
  assumes n: "2 \<le> length path"
  shows "\<exists>fn. path_normals path False = Inr (path, fn) \<and> length fn = length path + 1 \<and>
     fn ! 0 = segment_normal (path ! 0) (path ! 1) \<and>
     fn ! 1 = segment_normal (path ! 0) (path ! 1) \<and>
     fn ! (length path - 1) =
       segment_normal (path ! (length path - 2)) (path ! (length path - 1)) \<and>
     fn ! length path =
       vneg (segment_normal (path ! (length path - 1)) (path ! (length path - 2)))"
proof -
  define N where "N = length path"
  define fp0 where "fp0 = path @ [path ! (N - 2)]"
  define normals0 where
    "normals0 = map (\<lambda>i. segment_normal (fp0 ! i) (fp0 ! (i + 1))) [0..<N]"
  define normals where "normals = butlast normals0 @ [vneg (last normals0)]"
  define fn where "fn = [hd normals] @ normals"
  from n have N: "2 \<le> N" by (simp add: N_def)
  have len0: "length normals0 = N" by (simp add: normals0_def)
  with N have ne0: "normals0 \<noteq> []" by auto
  have len: "length normals = N" using len0 N by (simp add: normals_def)
  have pn: "path_normals path False = Inr (path, fn)"
    using n by (simp add: path_normals_def Let_def fn_def normals_def normals0_def fp0_def N_def)
  have inner: "normals ! i = segment_normal (path ! i) (path ! (i + 1))" if "i + 1 < N" for i
  proof -
    from that len0 have short: "i < length (butlast normals0)" by simp
    then have "normals ! i = butlast normals0 ! i"
      by (simp add: normals_def nth_append)
    also have "\<dots> = normals0 ! i"
      using short by (simp add: nth_butlast)
    also have "\<dots> = segment_normal (fp0 ! i) (fp0 ! (i + 1))"
      using that by (simp add: normals0_def)
    also have "\<dots> = segment_normal (path ! i) (path ! (i + 1))"
      using that by (simp add: fp0_def nth_append N_def)
    finally show ?thesis .
  qed
  have tail: "normals ! (N - 1) = vneg (segment_normal (path ! (N - 1)) (path ! (N - 2)))"
  proof -
    have "normals ! (N - 1) = vneg (last normals0)"
      using len0 by (simp add: normals_def nth_append)
    also have "last normals0 = normals0 ! (N - 1)"
      using ne0 len0 by (simp add: last_conv_nth)
    also have "\<dots> = segment_normal (fp0 ! (N - 1)) (fp0 ! N)"
      using N by (simp add: normals0_def)
    also have "\<dots> = segment_normal (path ! (N - 1)) (path ! (N - 2))"
      using N by (simp add: fp0_def nth_append N_def)
    finally show ?thesis .
  qed
  from len N have hd: "hd normals = normals ! 0"
    by (cases normals) auto
  have f0: "fn ! 0 = segment_normal (path ! 0) (path ! 1)"
    using inner [of 0] N hd by (simp add: fn_def)
  have f1: "fn ! 1 = segment_normal (path ! 0) (path ! 1)"
    using inner [of 0] N by (simp add: fn_def)
  have fl: "fn ! (N - 1) = segment_normal (path ! (N - 2)) (path ! (N - 1))"
  proof -
    from N have "N = Suc (Suc (N - 2))" by simp
    then obtain M where M: "N = Suc (Suc M)" ..
    have "fn ! (N - 1) = normals ! M"
      by (simp add: fn_def M)
    also have "\<dots> = segment_normal (path ! M) (path ! (M + 1))"
      by (rule inner) (simp add: M)
    finally show ?thesis by (simp add: M)
  qed
  have fN: "fn ! N = vneg (segment_normal (path ! (N - 1)) (path ! (N - 2)))"
    using tail N by (simp add: fn_def nth_Cons')
  have "length fn = N + 1" using len by (simp add: fn_def)
  with pn f0 f1 fl fN show ?thesis unfolding N_def by blast
qed

subsection \<open>Counts and caps\<close>

lemma take2_drop:
  assumes "i + 1 < length xs"
  shows "take 2 (drop i xs) = [xs ! i, xs ! (i + 1)]"
proof -
  from assms have "drop i xs = xs ! i # drop (Suc i) xs"
    by (simp add: Cons_nth_drop_Suc)
  moreover from assms have "drop (Suc i) xs = xs ! (Suc i) # drop (Suc (Suc i)) xs"
    by (simp add: Cons_nth_drop_Suc)
  ultimately show ?thesis by (simp add: numeral_2_eq_2)
qed

lemma path_miters_nth:
  assumes "i < length fp"
  shows "path_miters fp fn ! i =
    vdivs (vmean (take 2 (drop i fn))) (vdot (vmean (take 2 (drop i fn))) (fn ! i))"
  using assms by (simp add: path_miters_def Let_def)

lemma length_path_miters: "length (path_miters fp fn) = length fp"
  by (simp add: path_miters_def Let_def)

lemma miter_between_equal_units:
  assumes "i < length fp" "i + 1 < length fn" "fn ! i = n" "fn ! (i + 1) = n"
    "n = (Fin x, Fin y)" "x * x + y * y = 1"
  shows "path_miters fp fn ! i = n"
  using assms by (simp add: path_miters_nth take2_drop miter_of_equal_normals)

lemma take2_off_pairs:
  assumes "0 < k"
  shows "take 2 (off_pairs ms k) = [vneg (ms ! 0), ms ! 0]"
proof -
  from assms have "[0..<k] = 0 # [1..<k]" by (simp add: upt_conv_Cons)
  then show ?thesis by (simp add: off_pairs_def)
qed

lemma drop_off_pairs:
  assumes "0 < k"
  shows "drop (2 * k - 2) (off_pairs ms k) = [vneg (ms ! (k - 1)), ms ! (k - 1)]"
proof -
  from assms obtain j where j: "k = Suc j" by (cases k) auto
  have "2 * k - 2 = length (off_pairs ms j)"
    by (simp add: j length_off_pairs)
  then show ?thesis by (simp add: j off_pairs_Suc)
qed


text \<open>
  C4. For an open path of \<open>N \<ge> 2\<close> finite points, no two consecutive points equal and
  no inner miter longer than the limit, \<open>path_triangulate\<close> with \<open>closed=False\<close> returns
  every input point twice as the centres (\<open>2N\<close> of them), as many offsets and
  \<open>2(N-1)\<close> triangles. The first normal is used twice and the last one is the normal
  of the reversed last segment with its sign flipped, which is the normal of
  the last segment again; so the two offsets at either end are minus and plus half the
  unit normal of the end segment: a cap cut square to the path.
\<close>

theorem open_path_triangulate_counts:
  assumes n: "2 \<le> length path"
    and fin: "\<forall>p \<in> set path. finite_point p"
    and nodup: "\<forall>i. i + 1 < length path \<longrightarrow> path ! i \<noteq> path ! (i + 1)"
    and nb: "\<forall>i. 0 < i \<and> i + 1 < length path \<longrightarrow>
               \<not> fgt (miter_lengths_of path False ! i) limit"
  shows "\<exists>full_normals centers offsets faces.
     path_normals path False = Inr (path, full_normals) \<and>
     full_normals ! 0 = segment_normal (path ! 0) (path ! 1) \<and>
     full_normals ! 1 = segment_normal (path ! 0) (path ! 1) \<and>
     full_normals ! (length path - 1) =
       segment_normal (path ! (length path - 2)) (path ! (length path - 1)) \<and>
     full_normals ! length path =
       vneg (segment_normal (path ! (length path - 1)) (path ! (length path - 2))) \<and>
     full_normals ! length path = full_normals ! (length path - 1) \<and>
     path_triangulate path False limit False = Inr (centers, offsets, faces) \<and>
     centers = concat (map (\<lambda>p. [p, p]) path) \<and>
     length centers = 2 * length path \<and>
     length offsets = 2 * length path \<and>
     length faces = 2 * (length path - 1) \<and>
     take 2 offsets =
       [vneg (vscale (Fin (1/2)) (segment_normal (path ! 0) (path ! 1))),
        vscale (Fin (1/2)) (segment_normal (path ! 0) (path ! 1))] \<and>
     drop (2 * length path - 2) offsets =
       [vneg (vscale (Fin (1/2))
          (segment_normal (path ! (length path - 2)) (path ! (length path - 1)))),
        vscale (Fin (1/2))
          (segment_normal (path ! (length path - 2)) (path ! (length path - 1)))]"
proof -
  define N where "N = length path"
  define n0 where "n0 = segment_normal (path ! 0) (path ! 1)"
  define nl where "nl = segment_normal (path ! (N - 2)) (path ! (N - 1))"
  from n have N: "2 \<le> N" by (simp add: N_def)
  from open_normals [OF n] obtain fn where
    pn: "path_normals path False = Inr (path, fn)" and lfn: "length fn = N + 1"
    and f0: "fn ! 0 = n0" and f1: "fn ! 1 = n0" and fl: "fn ! (N - 1) = nl"
    and fN: "fn ! N = vneg (segment_normal (path ! (N - 1)) (path ! (N - 2)))"
    unfolding N_def n0_def nl_def by blast
  define ms0 where "ms0 = path_miters path fn"
  define mls where "mls = map vnorm ms0"
  define ms where "ms = map (vscale (Fin (1/2))) ms0"
  have "miter_lengths_of path False = mls"
    by (simp add: miter_lengths_of_def pn mls_def ms0_def)
  with nb have nb': "\<forall>i. 0 < i \<and> i + 1 < length path \<longrightarrow> \<not> fgt (mls ! i) limit"
    by simp
  from open_loop [OF nb' n, of fn ms] obtain faces m where
    run: "run_steps (tri_step False limit False path fn ms mls) [0..<length path] ([], [], [], 0) =
           Inr (off_pairs ms N, twice path N, faces, m)"
    and lfaces: "length faces = 2 * (N - 1)"
    unfolding N_def by blast
  have pt: "path_triangulate path False limit False = Inr (twice path N, off_pairs ms N, faces)"
    by (simp add: path_triangulate_def pn Let_def ms0_def [symmetric] mls_def [symmetric]
        ms_def [symmetric] run)
  have fin0: "finite_point (path ! 0)" and fin1: "finite_point (path ! 1)"
    and finl: "finite_point (path ! (N - 1))" and finl2: "finite_point (path ! (N - 2))"
    using fin N by (auto simp: N_def intro!: nth_mem)
  from nodup N have d0: "path ! 0 \<noteq> path ! 1"
    by (simp add: N_def)
  from N have "N - 2 + 1 = N - 1" "N - 2 + 1 < N" by simp_all
  with nodup have dl: "path ! (N - 2) \<noteq> path ! (N - 1)"
    unfolding N_def by metis
  from segment_normal_unit [OF fin0 fin1 d0] obtain x0 y0 where
    u0: "n0 = (Fin x0, Fin y0)" "x0 * x0 + y0 * y0 = 1"
    unfolding n0_def by blast
  from segment_normal_unit [OF finl2 finl dl] obtain xl yl where
    ul: "nl = (Fin xl, Fin yl)" "xl * xl + yl * yl = 1"
    unfolding nl_def by blast
  have flip: "fn ! N = nl"
    unfolding fN nl_def by (rule segment_normal_flip [OF finl2 finl dl])
  have m_first: "ms0 ! 0 = n0"
    unfolding ms0_def
    by (rule miter_between_equal_units [where x = x0 and y = y0])
       (use N lfn f0 f1 u0 in \<open>auto simp: N_def\<close>)
  from N have e: "N - 1 + 1 = N" by simp
  have m_last: "ms0 ! (N - 1) = nl"
    unfolding ms0_def
  proof (rule miter_between_equal_units [where x = xl and y = yl])
    show "N - 1 < length path" using N by (simp add: N_def)
    show "N - 1 + 1 < length fn" using lfn N by simp
    show "fn ! (N - 1) = nl" by (fact fl)
    show "fn ! (N - 1 + 1) = nl" unfolding e by (fact flip)
    show "nl = (Fin xl, Fin yl)" by (fact ul(1))
    show "xl * xl + yl * yl = 1" by (fact ul(2))
  qed
  have lms0: "length ms0 = N"
    by (simp add: ms0_def length_path_miters N_def)
  have h_first: "ms ! 0 = vscale (Fin (1/2)) n0"
    using N lms0 m_first by (simp add: ms_def)
  have h_last: "ms ! (N - 1) = vscale (Fin (1/2)) nl"
    using N lms0 m_last by (simp add: ms_def)
  from N have pos: "0 < N" by simp
  have caps_head: "take 2 (off_pairs ms N) =
      [vneg (vscale (Fin (1/2)) n0), vscale (Fin (1/2)) n0]"
    using take2_off_pairs [OF pos, of ms] h_first by simp
  have caps_tail: "drop (2 * N - 2) (off_pairs ms N) =
      [vneg (vscale (Fin (1/2)) nl), vscale (Fin (1/2)) nl]"
    using drop_off_pairs [OF pos, of ms] h_last by simp
  have centers: "twice path N = concat (map (\<lambda>p. [p, p]) path)"
    unfolding N_def by (rule twice_all)
  have same: "fn ! N = fn ! (N - 1)"
    using flip fl by simp
  show ?thesis
    using pn f0 f1 fl fN same pt centers length_twice [of path N] length_off_pairs [of ms N]
      lfaces caps_head caps_tail
    unfolding N_def n0_def nl_def by blast
qed

lemma sqrt2_lt_5: "sqrt 2 < 5"
proof -
  have "(2::real) < 25" by simp
  then have "sqrt 2 < sqrt 25" by (rule real_sqrt_less_mono)
  also have "sqrt 25 = sqrt (5 * 5)" by simp
  also have "\<dots> = 5" by (simp del: real_sqrt_mult)
  finally show ?thesis .
qed

lemma upt3: "[0..<3] = [0, Suc 0, Suc (Suc 0)]" by (simp add: upt_rec)

lemma corner_miter_lengths:
  "miter_lengths_of corner_path False = [Fin 1, Fin (sqrt 2), Fin 1]"
  by (simp add: miter_lengths_of_def corner_path_def path_normals_def path_miters_def
      segment_normal_def vsub_def fsub_def vnorm_def vdivs_def vneg_def vmean_def vadd_def
      vdot_def Let_def upt3)

theorem open_path_triangulate_counts_witness:
  "\<exists>centers offsets faces.
     path_triangulate corner_path False default_limit False = Inr (centers, offsets, faces) \<and>
     centers = [(Fin 0, Fin 0), (Fin 0, Fin 0), (Fin 1, Fin 0), (Fin 1, Fin 0),
                (Fin 1, Fin 1), (Fin 1, Fin 1)] \<and>
     length offsets = 6 \<and> length faces = 4"
proof -
  have n: "2 \<le> length corner_path"
    by (simp add: corner_path_def)
  have fin: "\<forall>p \<in> set corner_path. finite_point p"
    by (simp add: corner_path_def finite_point_def)
  have nodup: "\<forall>i. i + 1 < length corner_path \<longrightarrow> corner_path ! i \<noteq> corner_path ! (i + 1)"
    by (auto simp: corner_path_def less_Suc_eq numeral_3_eq_3)
  have nb: "\<forall>i. 0 < i \<and> i + 1 < length corner_path \<longrightarrow>
      \<not> fgt (miter_lengths_of corner_path False ! i) default_limit"
  proof (intro allI impI)
    fix i assume "0 < i \<and> i + 1 < length corner_path"
    then have "i = 1" by (simp add: corner_path_def)
    then show "\<not> fgt (miter_lengths_of corner_path False ! i) default_limit"
      using sqrt2_lt_5 by (simp add: corner_miter_lengths default_limit_def fgt_def)
  qed
  from open_path_triangulate_counts [OF n fin nodup nb]
  show ?thesis
    by (auto simp: corner_path_def)
qed

subsection \<open>A single segment\<close>

lemma upt2: "[0..<2] = [0, Suc 0]" by (simp add: upt_rec)

lemma two_point_triangulate:
  assumes fa: "finite_point a" and fb: "finite_point b" and ne: "a \<noteq> b"
  shows "path_triangulate [a, b] False limit False =
     Inr ([a, a, b, b],
          [vneg (vscale (Fin (1/2)) (segment_normal a b)), vscale (Fin (1/2)) (segment_normal a b),
           vneg (vscale (Fin (1/2)) (segment_normal a b)), vscale (Fin (1/2)) (segment_normal a b)],
          if same_side (vscale (Fin (1/2)) (segment_normal a b))
               (vscale (Fin (1/2)) (segment_normal a b)) a b
          then [(0, 1, 3), (0, 2, 3)] else [(0, 1, 3), (1, 2, 3)])"
proof -
  define n where "n = segment_normal a b"
  define h where "h = vscale (Fin (1/2)) n"
  have len: "2 \<le> length [a, b]" by simp
  from open_normals [OF len] obtain fn where
    raw: "path_normals [a, b] False = Inr ([a, b], fn) \<and> length fn = length [a, b] + 1 \<and>
     fn ! 0 = segment_normal ([a, b] ! 0) ([a, b] ! 1) \<and>
     fn ! 1 = segment_normal ([a, b] ! 0) ([a, b] ! 1) \<and>
     fn ! (length [a, b] - 1) =
       segment_normal ([a, b] ! (length [a, b] - 2)) ([a, b] ! (length [a, b] - 1)) \<and>
     fn ! length [a, b] =
       vneg (segment_normal ([a, b] ! (length [a, b] - 1)) ([a, b] ! (length [a, b] - 2)))"
    by blast
  from raw have pn: "path_normals [a, b] False = Inr ([a, b], fn)" by blast
  from raw have lfn: "length fn = 3" by simp
  from raw have f0: "fn ! 0 = n" and f1: "fn ! 1 = n" by (simp_all add: n_def)
  from raw have f2: "fn ! 2 = vneg (segment_normal b a)" by (simp add: numeral_2_eq_2)
  from segment_normal_unit [OF fa fb ne] obtain x y where
    u: "n = (Fin x, Fin y)" "x * x + y * y = 1"
    unfolding n_def by blast
  have f2': "fn ! 2 = n"
    unfolding f2 n_def by (rule segment_normal_flip [OF fa fb ne])
  define ms0 where "ms0 = path_miters [a, b] fn"
  have m0: "ms0 ! 0 = n"
    unfolding ms0_def
    by (rule miter_between_equal_units [where x = x and y = y])
       (use lfn f0 f1 u in auto)
  have m1: "ms0 ! 1 = n"
    unfolding ms0_def
    by (rule miter_between_equal_units [where x = x and y = y])
       (use lfn f1 f2' u in \<open>auto simp: numeral_2_eq_2\<close>)
  have "length ms0 = 2"
    by (simp add: ms0_def length_path_miters)
  with m0 m1 have ms0: "ms0 = [n, n]"
    by (cases ms0; cases "tl ms0") (auto simp: numeral_2_eq_2)
  show ?thesis
    by (simp add: path_triangulate_def pn Let_def ms0_def [symmetric] ms0 upt2 tri_step_def
        quad_faces_def py_nth_def n_def [symmetric])
qed

lemma stroke_quad_areas:
  fixes ax ay bx "by" x y t :: real
  defines "h \<equiv> (Fin (x / 2), Fin (y / 2))"
  defines "a \<equiv> (Fin ax, Fin ay)" and "b \<equiv> (Fin bx, Fin by)"
  defines "vs \<equiv> [vadd a (vscale (Fin t) (vneg h)), vadd a (vscale (Fin t) h),
                  vadd b (vscale (Fin t) (vneg h)), vadd b (vscale (Fin t) h)]"
  shows "fl_face_area vs (0, 1, 3) = Fin (t * (x * (by - ay) - y * (bx - ax)) / 2)"
    and "fl_face_area vs (0, 2, 3) = Fin (- (t * (x * (by - ay) - y * (bx - ax)) / 2))"
    and "fl_face_area vs (1, 2, 3) = Fin (- (t * (x * (by - ay) - y * (bx - ax)) / 2))"
  unfolding vs_def h_def a_def b_def
  by (simp_all add: fl_face_area_def fl_signed_area_def vcross_def vsub_def fsub_def vadd_def
      vscale_def vneg_def field_simps)

lemma normal_cross_segment:
  fixes ax ay bx "by" :: real
  assumes "(ax, ay) \<noteq> (bx, by)"
  defines "L \<equiv> sqrt ((by - ay) * (by - ay) + (ax - bx) * (ax - bx))"
  shows "0 < L" and "((by - ay) / L) * (by - ay) - ((ax - bx) / L) * (bx - ax) = L"
proof -
  define q where "q = (by - ay) * (by - ay) + (ax - bx) * (ax - bx)"
  from assms(1) have "by - ay \<noteq> 0 \<or> ax - bx \<noteq> 0" by auto
  then have qpos: "0 < q"
    unfolding q_def by (metis add_pos_nonneg add_nonneg_pos zero_le_square not_real_square_gt_zero)
  then show Lpos: "0 < L" by (simp add: L_def q_def)
  have LL: "L * L = q" using qpos by (simp add: L_def q_def [symmetric])
  have "((by - ay) / L) * (by - ay) - ((ax - bx) / L) * (bx - ax) = q / L"
    by (simp add: q_def algebra_simps add_divide_distrib diff_divide_distrib)
  also have "\<dots> = L" using LL Lpos by (simp add: field_simps)
  finally show "((by - ay) / L) * (by - ay) - ((ax - bx) / L) * (bx - ax) = L" .
qed

text \<open>
  C5, as amended. The triangles of a stroke do not all wind the same way. For every open
  path of two distinct finite points and every positive thickness, \<open>path_triangulate\<close>
  emits exactly two triangles for the one quad; the first, \<open>[0, 1, 3]\<close>, has a positive
  signed area and the second, \<open>[0, 2, 3]\<close> or \<open>[1, 2, 3]\<close> depending on the cross-product
  test, has the same area with the opposite sign.
\<close>

theorem single_segment_triangles_wind_oppositely:
  assumes fa: "finite_point a" and fb: "finite_point b" and ne: "a \<noteq> b" and t: "0 < t"
  shows "\<exists>centers offsets f1 f2 vs A.
     path_triangulate [a, b] False limit False = Inr (centers, offsets, [f1, f2]) \<and>
     stroke_vertices centers (Fin t) offsets = Inr vs \<and>
     fl_face_area vs f1 = Fin A \<and> fl_face_area vs f2 = Fin (- A) \<and> 0 < A"
proof -
  from fa obtain ax ay where a: "a = (Fin ax, Fin ay)" by (rule finite_pointE)
  from fb obtain bx "by" where b: "b = (Fin bx, Fin by)" by (rule finite_pointE)
  define L where "L = sqrt ((by - ay) * (by - ay) + (ax - bx) * (ax - bx))"
  define x where "x = (by - ay) / L"
  define y where "y = (ax - bx) / L"
  from ne a b have "(ax, ay) \<noteq> (bx, by)" by simp
  from normal_cross_segment [OF this] have Lpos: "0 < L" and LL: "x * (by - ay) - y * (bx - ax) = L"
    unfolding L_def x_def y_def by simp_all
  have n: "segment_normal a b = (Fin x, Fin y)"
    unfolding a b segment_normal_Fin L_def [symmetric] using Lpos
    by (simp add: vdivs_def x_def y_def)
  define h where "h = (Fin (x / 2), Fin (y / 2))"
  have h: "vscale (Fin (1/2)) (segment_normal a b) = h"
    by (simp add: n vscale_def h_def)
  define vs where "vs = [vadd a (vscale (Fin t) (vneg h)), vadd a (vscale (Fin t) h),
                  vadd b (vscale (Fin t) (vneg h)), vadd b (vscale (Fin t) h)]"
  define A where "A = t * (x * (by - ay) - y * (bx - ax)) / 2"
  have Apos: "0 < A" unfolding A_def LL using t Lpos by simp
  have areas: "fl_face_area vs (0, 1, 3) = Fin A" "fl_face_area vs (0, 2, 3) = Fin (- A)"
    "fl_face_area vs (1, 2, 3) = Fin (- A)"
    unfolding vs_def h_def a b A_def by (rule stroke_quad_areas)+
  have sv: "stroke_vertices [a, a, b, b] (Fin t) [vneg h, h, vneg h, h] = Inr vs"
    by (simp add: stroke_vertices_def np_add_rows_def vs_def)
  have pt: "path_triangulate [a, b] False limit False =
     Inr ([a, a, b, b], [vneg h, h, vneg h, h],
          if same_side h h a b then [(0, 1, 3), (0, 2, 3)] else [(0, 1, 3), (1, 2, 3)])"
    using two_point_triangulate [OF fa fb ne, of limit] unfolding h .
  show ?thesis
  proof (cases "same_side h h a b")
    case True
    with pt sv areas Apos show ?thesis by (intro exI [of _ A] exI) auto
  next
    case False
    with pt sv areas Apos show ?thesis by (intro exI [of _ A] exI) auto
  qed
qed

theorem single_segment_triangles_wind_oppositely_witness:
  "\<exists>centers offsets f1 f2 vs A.
     path_triangulate [(Fin 0, Fin 0), (Fin 1, Fin 0)] False default_limit False =
       Inr (centers, offsets, [f1, f2]) \<and>
     stroke_vertices centers (Fin 1) offsets = Inr vs \<and>
     fl_face_area vs f1 = Fin A \<and> fl_face_area vs f2 = Fin (- A) \<and> 0 < A"
proof -
  have fa: "finite_point (Fin 0, Fin 0)" and fb: "finite_point (Fin 1, Fin 0)"
    by (simp_all add: finite_point_def)
  have ne: "(Fin 0, Fin 0) \<noteq> (Fin 1, Fin 0)" by simp
  have t: "(0::real) < 1" by simp
  from single_segment_triangles_wind_oppositely [OF fa fb ne t, of default_limit]
  show ?thesis .
qed

lemmas eval_defs = path_triangulate_def path_normals_def path_miters_def tri_step_def
  quad_faces_def same_side_def py_nth_def default_limit_def vadd_def vneg_def vscale_def
  vdivs_def vdot_def vnorm_def vcross_def vsub_def fsub_def fgt_def vmean_def
  segment_normal_def Let_def

text \<open>
  The claim as stated fails on the straight path from \<open>(0, 0)\<close> to \<open>(1, 0)\<close> stroked with
  thickness 1: its second triangle, \<open>[0, 2, 3]\<close>, has the signed area \<open>-1/2\<close>.
\<close>

theorem straight_path_second_triangle_clockwise:
  "path_triangulate [(Fin 0, Fin 0), (Fin 1, Fin 0)] False default_limit False =
     Inr ([(Fin 0, Fin 0), (Fin 0, Fin 0), (Fin 1, Fin 0), (Fin 1, Fin 0)],
          [(Fin 0, Fin (1/2)), (Fin 0, Fin (- 1/2)), (Fin 0, Fin (1/2)), (Fin 0, Fin (- 1/2))],
          [(0, 1, 3), (0, 2, 3)]) \<and>
   stroke_vertices [(Fin 0, Fin 0), (Fin 0, Fin 0), (Fin 1, Fin 0), (Fin 1, Fin 0)] (Fin 1)
       [(Fin 0, Fin (1/2)), (Fin 0, Fin (- 1/2)), (Fin 0, Fin (1/2)), (Fin 0, Fin (- 1/2))] =
     Inr [(Fin 0, Fin (1/2)), (Fin 0, Fin (- 1/2)), (Fin 1, Fin (1/2)), (Fin 1, Fin (- 1/2))] \<and>
   fl_face_area [(Fin 0, Fin (1/2)), (Fin 0, Fin (- 1/2)), (Fin 1, Fin (1/2)), (Fin 1, Fin (- 1/2))]
     (0, 2, 3) = Fin (- 1/2) \<and>
   \<not> flt (Fin 0) (fl_face_area
     [(Fin 0, Fin (1/2)), (Fin 0, Fin (- 1/2)), (Fin 1, Fin (1/2)), (Fin 1, Fin (- 1/2))]
     (0, 2, 3))"
proof -
  have up: "[0..<2] = [0, Suc 0]" by (simp add: upt_rec)
  have a: "path_triangulate [(Fin 0, Fin 0), (Fin 1, Fin 0)] False default_limit False =
     Inr ([(Fin 0, Fin 0), (Fin 0, Fin 0), (Fin 1, Fin 0), (Fin 1, Fin 0)],
          [(Fin 0, Fin (1/2)), (Fin 0, Fin (- 1/2)), (Fin 0, Fin (1/2)), (Fin 0, Fin (- 1/2))],
          [(0, 1, 3), (0, 2, 3)])"
    by (simp add: eval_defs up)
  have b: "stroke_vertices [(Fin 0, Fin 0), (Fin 0, Fin 0), (Fin 1, Fin 0), (Fin 1, Fin 0)] (Fin 1)
       [(Fin 0, Fin (1/2)), (Fin 0, Fin (- 1/2)), (Fin 0, Fin (1/2)), (Fin 0, Fin (- 1/2))] =
     Inr [(Fin 0, Fin (1/2)), (Fin 0, Fin (- 1/2)), (Fin 1, Fin (1/2)), (Fin 1, Fin (- 1/2))]"
    by (simp add: stroke_vertices_def np_add_rows_def vadd_def vscale_def)
  have c: "fl_face_area [(Fin 0, Fin (1/2)), (Fin 0, Fin (- 1/2)), (Fin 1, Fin (1/2)), (Fin 1, Fin (- 1/2))]
     (0, 2, 3) = Fin (- 1/2)"
    by (simp add: fl_face_area_def fl_signed_area_def vcross_def vsub_def fsub_def)
  from a b c show ?thesis by simp
qed
section \<open>Zero-length segments\<close>

lemma segment_normal_zero_length:
  assumes "finite_point a"
  shows "segment_normal a a = (NaN, NaN)"
proof -
  from assms obtain x y where "a = (Fin x, Fin y)" by (rule finite_pointE)
  then show ?thesis
    by (simp add: segment_normal_def vsub_def fsub_def vnorm_def vdivs_def Let_def)
qed

lemma quad_faces_total:
  assumes "m + 3 < length vo"
  shows "\<exists>fs. quad_faces vo m prev cur = Inr fs"
  using quad_faces_two [OF assms] by blast

lemma closing_faces_total:
  assumes "m + 1 < length vo"
  shows "\<exists>fs. closing_faces vo m prev cur = Inr fs"
  using assms by (simp add: closing_faces_def py_nth_def)

lemma length_bevel_offsets: "length (bevel_offsets mi n) = 3"
  by (simp add: bevel_offsets_def Let_def)

lemma tri_step_first_total:
  "\<exists>st'. tri_step c limit bevel fp fn ms mls 0 ([], [], [], 0) = Inr st' \<and> step_ok st'"
  by (simp add: tri_step_def step_ok_def length_bevel_offsets Let_def)

lemma tri_step_inner_total:
  assumes "step_ok st" "0 < i" "i \<noteq> length fp - 1"
  shows "\<exists>st'. tri_step c limit bevel fp fn ms mls i st = Inr st' \<and> step_ok st'"
proof -
  obtain vo cp faces m where st: "st = (vo, cp, faces, m)" by (cases st) auto
  from assms(1) have len: "length vo = m + 2" by (simp add: st step_ok_def)
  show ?thesis
  proof (cases "bevel \<or> fgt (mls ! i) limit")
    case True
    have "m + 3 < length (vo @ bevel_offsets (ms ! i) (fn ! i))"
      using len by (simp add: length_bevel_offsets)
    from quad_faces_total [OF this] obtain fs where
      "quad_faces (vo @ bevel_offsets (ms ! i) (fn ! i)) m (fp ! (i - 1)) (fp ! i) = Inr fs"
      by blast
    with True assms(2,3) len show ?thesis
      by (simp add: tri_step_def st step_ok_def length_bevel_offsets Let_def)
  next
    case False
    have "m + 3 < length (vo @ [vneg (ms ! i), ms ! i])"
      using len by simp
    from quad_faces_total [OF this] obtain fs where
      "quad_faces (vo @ [vneg (ms ! i), ms ! i]) m (fp ! (i - 1)) (fp ! i) = Inr fs"
      by blast
    with False assms(2,3) len show ?thesis
      by (simp add: tri_step_def st step_ok_def Let_def)
  qed
qed

lemma tri_step_last_total:
  assumes "step_ok st" "0 < i" "i = length fp - 1"
  shows "\<exists>st'. tri_step c limit bevel fp fn ms mls i st = Inr st'"
proof -
  obtain vo cp faces m where st: "st = (vo, cp, faces, m)" by (cases st) auto
  from assms(1) have len: "length vo = m + 2" by (simp add: st step_ok_def)
  show ?thesis
  proof (cases c)
    case True
    have "m + 1 < length vo" using len by simp
    from closing_faces_total [OF this] obtain fs where
      "closing_faces vo m (fp ! (i - 1)) (fp ! i) = Inr fs"
      by blast
    with True assms(2,3) show ?thesis
      by (simp add: tri_step_def st Let_def)
  next
    case False
    have "m + 3 < length (vo @ [vneg (ms ! i), ms ! i])"
      using len by simp
    from quad_faces_total [OF this] obtain fs where
      "quad_faces (vo @ [vneg (ms ! i), ms ! i]) m (fp ! (i - 1)) (fp ! i) = Inr fs"
      by blast
    with False assms(2,3) show ?thesis
      by (simp add: tri_step_def st Let_def)
  qed
qed

lemma loop_prefix_total:
  assumes "0 < k" "k < length fp"
  shows "\<exists>st. run_steps (tri_step c limit bevel fp fn ms mls) [0..<k] ([], [], [], 0) = Inr st \<and>
           step_ok st"
  using assms
proof (induction k)
  case 0
  then show ?case by simp
next
  case (Suc k)
  show ?case
  proof (cases "k = 0")
    case True
    with tri_step_first_total [of c limit bevel fp fn ms mls] show ?thesis by auto
  next
    case False
    with Suc obtain st where
      run: "run_steps (tri_step c limit bevel fp fn ms mls) [0..<k] ([], [], [], 0) = Inr st"
      and ok: "step_ok st"
      by auto
    from False Suc.prems have "0 < k" "k \<noteq> length fp - 1" by auto
    from tri_step_inner_total [OF ok this, of c limit bevel fn ms mls] obtain st' where
      "tri_step c limit bevel fp fn ms mls k st = Inr st'" "step_ok st'"
      by blast
    with run show ?thesis by (simp add: run_steps_append)
  qed
qed

lemma loop_total:
  assumes "2 \<le> length fp"
  shows "\<exists>st. run_steps (tri_step c limit bevel fp fn ms mls) [0..<length fp] ([], [], [], 0) = Inr st"
proof -
  define k where "k = length fp - 1"
  from assms have k: "0 < k" "k < length fp" "length fp = Suc k" by (simp_all add: k_def)
  from loop_prefix_total [OF k(1,2), of c limit bevel fn ms mls] obtain st where
    run: "run_steps (tri_step c limit bevel fp fn ms mls) [0..<k] ([], [], [], 0) = Inr st"
    and ok: "step_ok st"
    by blast
  from tri_step_last_total [OF ok k(1) k_def, of c limit bevel fn ms mls] obtain st' where
    last: "tri_step c limit bevel fp fn ms mls k st = Inr st'"
    by blast
  have "run_steps (tri_step c limit bevel fp fn ms mls) [0..<length fp] ([], [], [], 0) = Inr st'"
    using run k last by (simp add: run_steps_append)
  then show ?thesis ..
qed

lemma path_normals_total:
  assumes "if c then path \<noteq> [] else 2 \<le> length path"
  shows "\<exists>fp fn. path_normals path c = Inr (fp, fn) \<and> 2 \<le> length fp"
proof (cases c)
  case True
  with assms have "path \<noteq> []" by simp
  then have "1 \<le> length path" by (cases path) simp_all
  with True \<open>path \<noteq> []\<close> show ?thesis
    by (simp add: path_normals_def Let_def)
next
  case False
  with assms show ?thesis
    by (simp add: path_normals_def Let_def)
qed

lemma path_triangulate_never_raises:
  assumes "if c then path \<noteq> [] else 2 \<le> length path"
  shows "\<exists>centers offsets faces. path_triangulate path c limit bevel = Inr (centers, offsets, faces)"
proof -
  from path_normals_total [OF assms] obtain fp fn where
    pn: "path_normals path c = Inr (fp, fn)" and len: "2 \<le> length fp"
    by blast
  define ms0 where "ms0 = path_miters fp fn"
  from loop_total [OF len, of c limit bevel fn "map (vscale (Fin (1/2))) ms0" "map vnorm ms0"]
  obtain st where
    run: "run_steps (tri_step c limit bevel fp fn (map (vscale (Fin (1/2))) ms0) (map vnorm ms0))
      [0..<length fp] ([], [], [], 0) = Inr st"
    by blast
  obtain vo cp faces m where st: "st = (vo, cp, faces, m)" by (cases st) auto
  show ?thesis
    by (simp add: path_triangulate_def pn Let_def ms0_def [symmetric] run st)
qed

lemma two_equal_points_triangulate:
  "path_triangulate [(Fin x, Fin y), (Fin x, Fin y)] False limit False =
     Inr ([(Fin x, Fin y), (Fin x, Fin y), (Fin x, Fin y), (Fin x, Fin y)],
          [(NaN, NaN), (NaN, NaN), (NaN, NaN), (NaN, NaN)],
          [(0, 1, 3), (1, 2, 3)])"
proof -
  have up: "[0..<2] = [0, Suc 0]" by (simp add: upt_rec)
  show ?thesis
    by (simp add: path_triangulate_def path_normals_def path_miters_def tri_step_def
      quad_faces_def same_side_def py_nth_def vadd_def vneg_def vscale_def
      vdivs_def vdot_def vnorm_def vcross_def vsub_def fsub_def fgt_def vmean_def
      segment_normal_def Let_def up)
qed

lemma two_equal_points_committed:
  assumes "finite_point a"
  shows "compute_edge_meshes [a, a] False t index s =
     Inr (s\<lparr>sd_mesh_vertices := sd_mesh_vertices s @ replicate 4 (NaN, NaN),
            sd_mesh_vertices_index :=
              sd_mesh_vertices_index s @ replicate 4 (fst index, snd index, 1),
            sd_mesh_vertices_centers := sd_mesh_vertices_centers s @ replicate 4 a,
            sd_mesh_vertices_offsets := sd_mesh_vertices_offsets s @ replicate 4 (NaN, NaN),
            sd_mesh_faces := sd_mesh_faces s @
              [(length (sd_mesh_vertices s), length (sd_mesh_vertices s) + 1,
                length (sd_mesh_vertices s) + 3),
               (length (sd_mesh_vertices s) + 1, length (sd_mesh_vertices s) + 2,
                length (sd_mesh_vertices s) + 3)],
            sd_mesh_faces_index :=
              sd_mesh_faces_index s @ replicate 2 (fst index, snd index, 1)\<rparr>)"
proof -
  from assms obtain x y where a: "a = (Fin x, Fin y)" by (rule finite_pointE)
  have r4: "replicate 4 z = [z, z, z, z]" for z :: "'a"
    by (simp add: numeral_eq_Suc)
  have r2: "replicate 2 z = [z, z]" for z :: "'a"
    by (simp add: numeral_eq_Suc)
  have nan: "fmul t NaN = NaN" by (cases t) simp_all
  show ?thesis
    unfolding compute_edge_meshes_def a two_equal_points_triangulate r4 r2
    by (simp add: stroke_vertices_def np_add_rows_def vadd_def vscale_def append_meshes_def
        nan Let_def r4 r2)
qed

text \<open>
  C6, as amended. No error guards a zero-length segment. For every path in which two
  consecutive points are the same finite point, the normal of that segment is
  \<open>(NaN, NaN)\<close> and \<open>path_triangulate\<close>, open or closed, with any limit, returns its
  three arrays; and when the path is just those two points, the edge part of
  \<open>_compute_meshes\<close> appends four NaN vertices and two triangles to the mesh arrays.
\<close>

theorem zero_length_segment_is_stroked:
  assumes i: "i + 1 < length path" and eq: "path ! i = path ! (i + 1)"
    and fin: "finite_point (path ! i)"
  shows "segment_normal (path ! i) (path ! (i + 1)) = (NaN, NaN) \<and>
    (\<exists>centers offsets faces.
       path_triangulate path is_closed limit bevel = Inr (centers, offsets, faces)) \<and>
    (length path = 2 \<longrightarrow>
       (\<exists>s'. compute_edge_meshes path False t index s = Inr s' \<and>
          sd_mesh_vertices s' = sd_mesh_vertices s @ replicate 4 (NaN, NaN) \<and>
          length (sd_mesh_faces s') = length (sd_mesh_faces s) + 2))"
proof -
  have a: "segment_normal (path ! i) (path ! (i + 1)) = (NaN, NaN)"
    unfolding eq [symmetric] using fin by (rule segment_normal_zero_length)
  from i have "if is_closed then path \<noteq> [] else 2 \<le> length path"
    by auto
  then have b: "\<exists>centers offsets faces.
       path_triangulate path is_closed limit bevel = Inr (centers, offsets, faces)"
    by (rule path_triangulate_never_raises)
  have c: "\<exists>s'. compute_edge_meshes path False t index s = Inr s' \<and>
          sd_mesh_vertices s' = sd_mesh_vertices s @ replicate 4 (NaN, NaN) \<and>
          length (sd_mesh_faces s') = length (sd_mesh_faces s) + 2"
    if two: "length path = 2"
  proof -
    from two i have i0: "i = 0" by simp
    from two obtain p q where pq: "path = [p, q]"
      by (cases path; cases "tl path") (auto simp: numeral_2_eq_2)
    with eq i0 fin have "path = [p, p]" "finite_point p" by simp_all
    with two_equal_points_committed [of p t index s] show ?thesis
      by simp
  qed
  from a b c show ?thesis by blast
qed

theorem zero_length_segment_is_stroked_witness:
  "segment_normal (Fin 1, Fin 1) (Fin 1, Fin 1) = (NaN, NaN) \<and>
   (\<exists>centers offsets faces.
       path_triangulate [(Fin 1, Fin 1), (Fin 1, Fin 1)] False default_limit False =
         Inr (centers, offsets, faces)) \<and>
   (\<exists>s'. compute_edge_meshes [(Fin 1, Fin 1), (Fin 1, Fin 1)] False (Fin 1) (0, 3) empty_mesh =
            Inr s' \<and>
          sd_mesh_vertices s' = sd_mesh_vertices empty_mesh @ replicate 4 (NaN, NaN) \<and>
          length (sd_mesh_faces s') = length (sd_mesh_faces empty_mesh) + 2)"
proof -
  have i: "0 + 1 < length [(Fin 1, Fin 1), (Fin 1, Fin 1)]" by simp
  have eq: "[(Fin 1, Fin 1), (Fin 1, Fin 1)] ! 0 = [(Fin 1, Fin 1), (Fin 1, Fin 1)] ! (0 + 1)"
    by simp
  have fin: "finite_point ([(Fin 1, Fin 1), (Fin 1, Fin 1)] ! 0)"
    by (simp add: finite_point_def)
  have two: "length [(Fin 1, Fin 1), (Fin 1, Fin 1)] = 2" by simp
  from zero_length_segment_is_stroked [OF i eq fin, of False default_limit False "Fin 1"
      "(0, 3)" empty_mesh] two
  show ?thesis by simp
qed

text \<open>
  The claim as stated fails on the path whose two points are both \<open>(1, 1)\<close>:
  \<open>path_triangulate\<close> returns four centres, four NaN offsets and two triangles, and the
  edge part of \<open>_compute_meshes\<close> appends them to the empty mesh arrays. Nothing is raised
  and the state has changed.
\<close>

theorem zero_length_segment_counterexample:
  "path_triangulate [(Fin 1, Fin 1), (Fin 1, Fin 1)] False default_limit False =
     Inr ([(Fin 1, Fin 1), (Fin 1, Fin 1), (Fin 1, Fin 1), (Fin 1, Fin 1)],
          [(NaN, NaN), (NaN, NaN), (NaN, NaN), (NaN, NaN)],
          [(0, 1, 3), (1, 2, 3)]) \<and>
   compute_edge_meshes [(Fin 1, Fin 1), (Fin 1, Fin 1)] False (Fin 1) (0, 3) empty_mesh =
     Inr \<lparr>sd_mesh_vertices = [(NaN, NaN), (NaN, NaN), (NaN, NaN), (NaN, NaN)],
          sd_mesh_vertices_index = [(0, 3, 1), (0, 3, 1), (0, 3, 1), (0, 3, 1)],
          sd_mesh_vertices_centers = [(Fin 1, Fin 1), (Fin 1, Fin 1), (Fin 1, Fin 1), (Fin 1, Fin 1)],
          sd_mesh_vertices_offsets = [(NaN, NaN), (NaN, NaN), (NaN, NaN), (NaN, NaN)],
          sd_mesh_faces = [(0, 1, 3), (1, 2, 3)],
          sd_mesh_faces_index = [(0, 3, 1), (0, 3, 1)]\<rparr>"
proof -
  have up: "[0..<2] = [0, Suc 0]" by (simp add: upt_rec)
  have a: "path_triangulate [(Fin 1, Fin 1), (Fin 1, Fin 1)] False default_limit False =
     Inr ([(Fin 1, Fin 1), (Fin 1, Fin 1), (Fin 1, Fin 1), (Fin 1, Fin 1)],
          [(NaN, NaN), (NaN, NaN), (NaN, NaN), (NaN, NaN)],
          [(0, 1, 3), (1, 2, 3)])"
    by (simp add: eval_defs up)
  show ?thesis
    unfolding compute_edge_meshes_def a
    by (simp add: stroke_vertices_def np_add_rows_def vadd_def vscale_def append_meshes_def
        empty_mesh_def numeral_2_eq_2 numeral_Bit0 Let_def)
qed
section \<open>Removing a shape from the collection\<close>

lemma np_mask_pred:
  assumes "length tags = length xs"
  shows "np_mask xs (map P tags) = Inr (map fst (filter (\<lambda>(x, g). P g) (zip xs tags)))"
proof -
  have "zip xs (map P tags) = map (\<lambda>(x, g). (x, P g)) (zip xs tags)"
    by (simp add: zip_map2)
  then have "filter snd (zip xs (map P tags)) =
      map (\<lambda>(x, g). (x, P g)) (filter (\<lambda>(x, g). P g) (zip xs tags))"
    by (simp add: filter_map comp_def case_prod_unfold)
  then show ?thesis
    using assms by (simp add: np_mask_def comp_def case_prod_unfold)
qed


lemma removed_positions_set:
  "set (removed_positions j tags) = {p. p < length tags \<and> fst (tags ! p) = j}"
  by (auto simp: removed_positions_def)

lemma removed_positions_length:
  "length (removed_positions j tags) = length (filter (\<lambda>g. fst g = j) tags)"
proof -
  have "filter (\<lambda>g. fst g = j) tags = filter (\<lambda>g. fst g = j) (map (\<lambda>p. tags ! p) [0..<length tags])"
    by (simp add: map_nth)
  also have "\<dots> = map (\<lambda>p. tags ! p) (removed_positions j tags)"
    by (simp add: filter_map comp_def removed_positions_def)
  finally show ?thesis by simp
qed

lemma length_filter_other:
  "length (filter (\<lambda>g. fst g \<noteq> j) tags) = length tags - length (removed_positions j tags)"
  using sum_length_filter_compl [of "\<lambda>g. fst g = j" tags]
  by (simp add: removed_positions_length)

lemma block_span:
  assumes "block_ok s j"
  shows "0 < block_len s j"
    and "block_lo s j + block_len s j \<le> length (sl_mesh_vertices_index s)"
    and "\<And>p. (p < length (sl_mesh_vertices_index s) \<and> fst (sl_mesh_vertices_index s ! p) = j)
           \<longleftrightarrow> (block_lo s j \<le> p \<and> p < block_lo s j + block_len s j)"
proof -
  define ps where "ps = removed_positions j (sl_mesh_vertices_index s)"
  define lo where "lo = block_lo s j"
  define k where "k = block_len s j"
  from assms have "ps \<noteq> [] \<and> ps = [hd ps..<hd ps + length ps]"
    unfolding block_ok_def Let_def ps_def by blast
  then have ne: "ps \<noteq> []" and eq: "ps = [lo..<lo + k]"
    unfolding block_lo_def block_len_def ps_def lo_def k_def by blast+
  from ne have pos: "0 < k"
    unfolding k_def block_len_def ps_def by simp
  have mem1: "p \<in> set ps \<longleftrightarrow>
      p < length (sl_mesh_vertices_index s) \<and> fst (sl_mesh_vertices_index s ! p) = j" for p
    unfolding ps_def removed_positions_set by blast
  have "set ps = set [lo..<lo + k]" using eq by (rule arg_cong)
  then have mem2: "p \<in> set ps \<longleftrightarrow> lo \<le> p \<and> p < lo + k" for p
    by (simp only: set_upt atLeastLessThan_iff)
  have span: "(p < length (sl_mesh_vertices_index s) \<and> fst (sl_mesh_vertices_index s ! p) = j)
           \<longleftrightarrow> (lo \<le> p \<and> p < lo + k)" for p
    using mem1 [of p] mem2 [of p] by blast
  from pos have "lo \<le> lo + k - 1 \<and> lo + k - 1 < lo + k" by arith
  with span [of "lo + k - 1"] have "lo + k - 1 < length (sl_mesh_vertices_index s)" by blast
  with pos have top: "lo + k \<le> length (sl_mesh_vertices_index s)" by arith
  from pos show "0 < block_len s j" unfolding k_def .
  from top show "block_lo s j + block_len s j \<le> length (sl_mesh_vertices_index s)"
    unfolding lo_def k_def .
  fix p
  from span [of p] show "(p < length (sl_mesh_vertices_index s) \<and>
      fst (sl_mesh_vertices_index s ! p) = j)
           \<longleftrightarrow> (block_lo s j \<le> p \<and> p < block_lo s j + block_len s j)"
    unfolding lo_def k_def .
qed

lemma block_triangles:
  assumes "block_ok s j" "(t, g) \<in> set (zip (sl_mesh_triangles s) (sl_mesh_triangles_index s))"
    "fst g = j"
  shows "tri_within (int (block_lo s j)) (int (block_lo s j + block_len s j)) t"
proof -
  from assms(1) have "list_all (\<lambda>(t, g). fst g = j \<longrightarrow>
      tri_within (int (block_lo s j)) (int (block_lo s j + block_len s j)) t)
    (zip (sl_mesh_triangles s) (sl_mesh_triangles_index s))"
    unfolding block_ok_def Let_def block_lo_def block_len_def by blast
  then have "\<forall>x \<in> set (zip (sl_mesh_triangles s) (sl_mesh_triangles_index s)).
      case x of (t, g) \<Rightarrow> fst g = j \<longrightarrow>
        tri_within (int (block_lo s j)) (int (block_lo s j + block_len s j)) t"
    by (simp only: list_all_iff)
  with assms(2,3) show ?thesis by blast
qed

lemma blocks_apart:
  assumes "block_ok s i" "block_ok s j" "i \<noteq> j"
  shows "block_lo s j + block_len s j \<le> block_lo s i \<or>
         block_lo s i + block_len s i \<le> block_lo s j"
proof (rule ccontr)
  assume "\<not> ?thesis"
  then have over: "block_lo s i < block_lo s j + block_len s j"
    "block_lo s j < block_lo s i + block_len s i"
    by simp_all
  define p where "p = max (block_lo s i) (block_lo s j)"
  from over block_span(1) [OF assms(1)] block_span(1) [OF assms(2)]
  have "block_lo s i \<le> p \<and> p < block_lo s i + block_len s i"
    "block_lo s j \<le> p \<and> p < block_lo s j + block_len s j"
    by (auto simp: p_def)
  with block_span(3) [OF assms(1), of p] block_span(3) [OF assms(2), of p]
  have "fst (sl_mesh_vertices_index s ! p) = i" "fst (sl_mesh_vertices_index s ! p) = j"
    by blast+
  with assms(3) show False by simp
qed

lemma consistentD:
  assumes "consistent s"
  shows "length (sl_z_order s) = length (sl_shapes s)"
    and "length (sl_index s) = length (sl_vertices s)"
    and "length (sl_mesh_vertices_index s) = length (sl_mesh_vertices s)"
    and "length (sl_mesh_triangles_index s) = length (sl_mesh_triangles s)"
    and "length (sl_mesh_triangles_colors s) = length (sl_mesh_triangles s)"
    and "length (sl_mesh_triangles_z_order s) = length (sl_mesh_triangles s)"
    and "\<And>j. j \<in> set (sl_index s) \<Longrightarrow> j < length (sl_shapes s)"
    and "\<And>g. g \<in> set (sl_mesh_vertices_index s) \<Longrightarrow> fst g < length (sl_shapes s)"
    and "\<And>g. g \<in> set (sl_mesh_triangles_index s) \<Longrightarrow> fst g < length (sl_shapes s)"
    and "\<And>j. j < length (sl_shapes s) \<Longrightarrow> block_ok s j"
  using assms by (auto simp: consistent_def list_all_iff)


lemma length_masked:
  assumes "length tags = length xs"
  shows "length (map fst (filter (\<lambda>(x, g). P g) (zip xs tags))) = length (filter P tags)"
proof -
  have "filter P tags = filter P (map snd (zip xs tags))" using assms by simp
  also have "\<dots> = map snd (filter (\<lambda>(x, g). P g) (zip xs tags))"
    by (simp add: filter_map comp_def case_prod_unfold)
  finally show ?thesis by simp
qed

lemma kept_triangle_apart:
  assumes "consistent s" "i < length (sl_shapes s)"
    "(t, g) \<in> set (zip (sl_mesh_triangles s) (sl_mesh_triangles_index s))" "fst g \<noteq> i"
  shows "tri_within 0 (int (block_lo s i)) t \<or>
         tri_within (int (block_lo s i + block_len s i)) (int (length (sl_mesh_vertices s))) t"
proof -
  from assms(3) have "g \<in> set (sl_mesh_triangles_index s)" by (rule set_zip_rightD)
  then have "fst g < length (sl_shapes s)" by (rule consistentD(9) [OF assms(1)])
  then have okj: "block_ok s (fst g)" by (rule consistentD(10) [OF assms(1)])
  from assms(2) have oki: "block_ok s i" by (rule consistentD(10) [OF assms(1)])
  from block_triangles [OF okj assms(3) refl]
  have within: "tri_within (int (block_lo s (fst g)))
      (int (block_lo s (fst g) + block_len s (fst g))) t" .
  from block_span(2) [OF okj] consistentD(3) [OF assms(1)]
  have top: "block_lo s (fst g) + block_len s (fst g) \<le> length (sl_mesh_vertices s)" by simp
  from blocks_apart [OF oki okj] assms(4)
  have "block_lo s (fst g) + block_len s (fst g) \<le> block_lo s i \<or>
        block_lo s i + block_len s i \<le> block_lo s (fst g)" by blast
  with within top show ?thesis unfolding tri_within_def by auto
qed

lemma lower_above_outside:
  assumes "0 < k" "lo + k \<le> M"
    "tri_within 0 (int lo) t \<or> tri_within (int (lo + k)) (int M) t"
  shows "lower_above (int lo) (int k) t = lower_above (int (lo + k - 1)) (int k) t"
    and "tri_within 0 (int (M - k)) (lower_above (int lo) (int k) t)"
proof -
  from assms(1) have a: "int (lo + k - 1) = int lo + int k - 1" by (simp add: of_nat_diff)
  from assms(1,2) have b: "int (M - k) = int M - int k" by (simp add: of_nat_diff)
  from assms(3) show "lower_above (int lo) (int k) t = lower_above (int (lo + k - 1)) (int k) t"
    unfolding a using assms(1) by (auto simp: lower_above_def tri_within_def)
  from assms(3) show "tri_within 0 (int (M - k)) (lower_above (int lo) (int k) t)"
    unfolding b using assms(1,2) by (auto simp: lower_above_def tri_within_def)
qed

lemma kept_triangles_zip:
  "t \<in> set (kept_triangles i s) \<Longrightarrow>
   \<exists>g. (t, g) \<in> set (zip (sl_mesh_triangles s) (sl_mesh_triangles_index s)) \<and> fst g \<noteq> i"
  unfolding kept_triangles_def by fastforce

lemma block_last:
  assumes "block_ok s i"
  shows "last (removed_positions i (sl_mesh_vertices_index s)) = block_lo s i + block_len s i - 1"
    and "hd (removed_positions i (sl_mesh_vertices_index s)) = block_lo s i"
    and "length (removed_positions i (sl_mesh_vertices_index s)) = block_len s i"
    and "removed_positions i (sl_mesh_vertices_index s) \<noteq> []"
proof -
  define ps where "ps = removed_positions i (sl_mesh_vertices_index s)"
  from assms have "ps \<noteq> [] \<and> ps = [hd ps..<hd ps + length ps]"
    unfolding block_ok_def Let_def ps_def by blast
  then have ne: "ps \<noteq> []" and eq: "ps = [hd ps..<hd ps + length ps]" by blast+
  from ne have pos: "0 < length ps" by simp
  have "last ps = last [hd ps..<hd ps + length ps]" using eq by (rule arg_cong)
  also from pos have "\<dots> = hd ps + length ps - 1" by (simp add: last_upt)
  finally show "last (removed_positions i (sl_mesh_vertices_index s)) = block_lo s i + block_len s i - 1"
    unfolding ps_def block_lo_def block_len_def .
  show "hd (removed_positions i (sl_mesh_vertices_index s)) = block_lo s i"
    unfolding block_lo_def ..
  show "length (removed_positions i (sl_mesh_vertices_index s)) = block_len s i"
    unfolding block_len_def ..
  from ne show "removed_positions i (sl_mesh_vertices_index s) \<noteq> []" unfolding ps_def .
qed

lemma remove_one_fields:
  assumes "consistent s" "i < length (sl_shapes s)"
  shows "\<exists>s'. remove_one i True s = Inr s' \<and>
     sl_shapes s' = delete_at i (sl_shapes s) \<and>
     sl_z_order s' = delete_at i (sl_z_order s) \<and>
     sl_index s' = map (renumber_index i) (filter (\<lambda>j. j \<noteq> i) (sl_index s)) \<and>
     sl_mesh_vertices_index s' =
       map (renumber_tag i) (filter (\<lambda>g. fst g \<noteq> i) (sl_mesh_vertices_index s)) \<and>
     sl_mesh_triangles_index s' =
       map (renumber_tag i) (filter (\<lambda>g. fst g \<noteq> i) (sl_mesh_triangles_index s)) \<and>
     length (sl_mesh_vertices s') = length (sl_mesh_vertices s) - block_len s i \<and>
     sl_mesh_triangles s' =
       map (lower_above (int (block_lo s i)) (int (block_len s i))) (kept_triangles i s)"
proof -
  note len = consistentD(1-6) [OF assms(1)]
  from assms(2) have ok: "block_ok s i" by (rule consistentD(10) [OF assms(1)])
  note blk = block_last [OF ok]
  have m1: "np_mask (sl_vertices s) (map (\<lambda>j. j \<noteq> i) (sl_index s)) =
      Inr (map fst (filter (\<lambda>(x, g). g \<noteq> i) (zip (sl_vertices s) (sl_index s))))"
    by (rule np_mask_pred [OF len(2)])
  have m2: "np_mask (sl_mesh_triangles s) (map (\<lambda>g. fst g \<noteq> i) (sl_mesh_triangles_index s)) =
      Inr (kept_triangles i s)"
    unfolding kept_triangles_def by (rule np_mask_pred [OF len(4)])
  from len(4,5) have "length (sl_mesh_triangles_index s) = length (sl_mesh_triangles_colors s)"
    by simp
  note m3 = np_mask_pred [OF this, of "\<lambda>g. fst g \<noteq> i"]
  from len(4,6) have "length (sl_mesh_triangles_index s) = length (sl_mesh_triangles_z_order s)"
    by simp
  note m4 = np_mask_pred [OF this, of "\<lambda>g. fst g \<noteq> i"]
  note m5 = np_mask_pred [OF len(3), of "\<lambda>g. fst g \<noteq> i"]
  have l5: "length (map fst (filter (\<lambda>(x, g). fst g \<noteq> i)
      (zip (sl_mesh_vertices s) (sl_mesh_vertices_index s)))) =
      length (sl_mesh_vertices s) - block_len s i"
    unfolding length_masked [OF len(3)] length_filter_other block_len_def len(3) ..
  from assms(2) len(1) have bounds: "i < length (sl_z_order s)" by simp
  show ?thesis
    unfolding remove_one_def m1 m2 m3 m4 m5 ebind_def Let_def blk(2,3)
    using blk(4) assms(2) bounds l5 by simp
qed

lemma two_shapes_built:
  "ebind (add line_shape remove_all) (add upright_shape) = Inr two_shapes"
  by (simp add: ebind_def add_def add_meshes_def append_mesh_def stroke_vertices_def
      np_add_rows_def remove_all_def line_shape_def upright_shape_def two_shapes_def
      shift_tri_def vadd_def vscale_def Let_def)

lemma upt8: "[0..<8] = [0, 1, 2, 3, 4, 5, 6, 7::nat]"
  by (simp add: upt_rec)

lemma two_shapes_blocks:
  "removed_positions 0 (sl_mesh_vertices_index two_shapes) = [0, 1, 2, 3]"
  "removed_positions 1 (sl_mesh_vertices_index two_shapes) = [4, 5, 6, 7]"
  by (simp_all add: removed_positions_def two_shapes_def upt8)

lemma two_shapes_consistent: "consistent two_shapes"
proof -
  have b0: "block_ok two_shapes 0"
    unfolding block_ok_def two_shapes_blocks Let_def
    by (simp add: two_shapes_def tri_within_def upt_rec)
  have b1: "block_ok two_shapes 1"
    unfolding block_ok_def two_shapes_blocks Let_def
    by (simp add: two_shapes_def tri_within_def upt_rec)
  have "[0..<length (sl_shapes two_shapes)] = [0, 1]"
    by (simp add: two_shapes_def upt_rec)
  with b0 b1 have "list_all (block_ok two_shapes) [0..<length (sl_shapes two_shapes)]"
    by simp
  then show ?thesis
    unfolding consistent_def by (simp add: two_shapes_def)
qed

lemma stroke_vertices_length:
  assumes "length offsets = length centers"
  shows "\<exists>vs. stroke_vertices centers w offsets = Inr vs \<and> length vs = length centers"
  using assms by (simp add: stroke_vertices_def np_add_rows_def)





lemma after_block_iff:
  assumes "block_ok s i"
  shows "(\<forall>p < length (sl_mesh_vertices_index s).
            fst (sl_mesh_vertices_index s ! p) = i \<longrightarrow> int p < a) \<longleftrightarrow>
         int (block_lo s i + block_len s i - 1) < a"
proof
  note span = block_span [OF assms]
  assume all: "\<forall>p < length (sl_mesh_vertices_index s).
      fst (sl_mesh_vertices_index s ! p) = i \<longrightarrow> int p < a"
  from span(1) have "block_lo s i \<le> block_lo s i + block_len s i - 1 \<and>
      block_lo s i + block_len s i - 1 < block_lo s i + block_len s i" by arith
  with span(3) [of "block_lo s i + block_len s i - 1"]
  have "block_lo s i + block_len s i - 1 < length (sl_mesh_vertices_index s) \<and>
      fst (sl_mesh_vertices_index s ! (block_lo s i + block_len s i - 1)) = i" by blast
  with all show "int (block_lo s i + block_len s i - 1) < a" by blast
next
  note span = block_span [OF assms]
  assume last: "int (block_lo s i + block_len s i - 1) < a"
  show "\<forall>p < length (sl_mesh_vertices_index s).
      fst (sl_mesh_vertices_index s ! p) = i \<longrightarrow> int p < a"
  proof (intro allI impI)
    fix p assume "p < length (sl_mesh_vertices_index s)"
      "fst (sl_mesh_vertices_index s ! p) = i"
    with span(3) [of p] have "p < block_lo s i + block_len s i" by blast
    with last show "int p < a" by arith
  qed
qed

lemma renumber_index_written: "renumber_index i = (\<lambda>j. if i < j then j - 1 else j)"
  by (rule ext) (simp add: renumber_index_def)

lemma renumber_tag_written:
  "renumber_tag i = (\<lambda>(j, m). (if i < j then j - 1 else j, m))"
  by (rule ext) (simp add: renumber_tag_def renumber_index_def case_prod_unfold)

lemma other_tag_written: "(\<lambda>g. fst g \<noteq> i) = (\<lambda>(j, m). j \<noteq> i)"
  by (rule ext) (simp add: case_prod_unfold)

lemma lower_above_written:
  "lower_above first k =
     (\<lambda>(a, b, c). (if first < a then a - k else a, if first < b then b - k else b,
        if first < c then c - k else c))"
  by (rule ext) (simp add: lower_above_def case_prod_unfold)

lemma renumbered_below:
  assumes "(j::nat) < n" "j \<noteq> i" "i < n"
  shows "(if i < j then j - 1 else j) < n - 1"
  using assms by auto

text \<open>
  Claim C1. In a consistent collection, removing the shape at a valid index \<open>i\<close> with
  renumbering succeeds and leaves one shape fewer. The shape indices that stay, in
  \<open>_index\<close> and in the first column of both tag arrays, are those different from \<open>i\<close>,
  each one greater than \<open>i\<close> lowered by one, and all of them are below the new number of
  shapes. The mesh vertices lose as many rows as carry the index \<open>i\<close>. In every remaining
  triangle, a corner that lies after all the removed positions is lowered by the number
  of removed rows and any other corner is unchanged; afterwards every corner is at least 0
  and below the new number of mesh vertices.
\<close>

theorem remove_one_renumbers:
  assumes "consistent s" and "i < length (sl_shapes s)"
  shows "\<exists>s'. remove_one i True s = Inr s' \<and>
     length (sl_shapes s') = length (sl_shapes s) - 1 \<and>
     sl_index s' =
       map (\<lambda>j. if i < j then j - 1 else j) (filter (\<lambda>j. j \<noteq> i) (sl_index s)) \<and>
     sl_mesh_vertices_index s' =
       map (\<lambda>(j, m). (if i < j then j - 1 else j, m))
         (filter (\<lambda>(j, m). j \<noteq> i) (sl_mesh_vertices_index s)) \<and>
     sl_mesh_triangles_index s' =
       map (\<lambda>(j, m). (if i < j then j - 1 else j, m))
         (filter (\<lambda>(j, m). j \<noteq> i) (sl_mesh_triangles_index s)) \<and>
     (\<forall>j \<in> set (sl_index s'). j < length (sl_shapes s')) \<and>
     (\<forall>(j, m) \<in> set (sl_mesh_vertices_index s'). j < length (sl_shapes s')) \<and>
     (\<forall>(j, m) \<in> set (sl_mesh_triangles_index s'). j < length (sl_shapes s')) \<and>
     length (sl_mesh_vertices s') =
       length (sl_mesh_vertices s) -
         length (filter (\<lambda>(j, m). j = i) (sl_mesh_vertices_index s)) \<and>
     sl_mesh_triangles s' =
       map (\<lambda>(a, b, c).
              (if \<forall>p < length (sl_mesh_vertices_index s).
                    fst (sl_mesh_vertices_index s ! p) = i \<longrightarrow> int p < a
               then a - int (length (filter (\<lambda>(j, m). j = i) (sl_mesh_vertices_index s)))
               else a,
               if \<forall>p < length (sl_mesh_vertices_index s).
                    fst (sl_mesh_vertices_index s ! p) = i \<longrightarrow> int p < b
               then b - int (length (filter (\<lambda>(j, m). j = i) (sl_mesh_vertices_index s)))
               else b,
               if \<forall>p < length (sl_mesh_vertices_index s).
                    fst (sl_mesh_vertices_index s ! p) = i \<longrightarrow> int p < c
               then c - int (length (filter (\<lambda>(j, m). j = i) (sl_mesh_vertices_index s)))
               else c))
         (map fst (filter (\<lambda>(t, j, m). j \<noteq> i)
                     (zip (sl_mesh_triangles s) (sl_mesh_triangles_index s)))) \<and>
     (\<forall>(a, b, c) \<in> set (sl_mesh_triangles s').
        0 \<le> a \<and> a < int (length (sl_mesh_vertices s')) \<and>
        0 \<le> b \<and> b < int (length (sl_mesh_vertices s')) \<and>
        0 \<le> c \<and> c < int (length (sl_mesh_vertices s')))"
proof -
  from assms(2) have ok: "block_ok s i" by (rule consistentD(10) [OF assms(1)])
  note span = block_span [OF ok]
  from span(2) consistentD(3) [OF assms(1)]
  have top: "block_lo s i + block_len s i \<le> length (sl_mesh_vertices s)" by simp
  have count: "length (filter (\<lambda>(j, m). j = i) (sl_mesh_vertices_index s)) = block_len s i"
    unfolding block_len_def removed_positions_length by (simp add: case_prod_unfold)
  from remove_one_fields [OF assms] obtain s' where
    res: "remove_one i True s = Inr s'"
    and shp: "sl_shapes s' = delete_at i (sl_shapes s)"
    and idx: "sl_index s' = map (renumber_index i) (filter (\<lambda>j. j \<noteq> i) (sl_index s))"
    and mvi: "sl_mesh_vertices_index s' =
       map (renumber_tag i) (filter (\<lambda>g. fst g \<noteq> i) (sl_mesh_vertices_index s))"
    and mti: "sl_mesh_triangles_index s' =
       map (renumber_tag i) (filter (\<lambda>g. fst g \<noteq> i) (sl_mesh_triangles_index s))"
    and len: "length (sl_mesh_vertices s') = length (sl_mesh_vertices s) - block_len s i"
    and tris: "sl_mesh_triangles s' =
       map (lower_above (int (block_lo s i)) (int (block_len s i))) (kept_triangles i s)"
    by blast
  from assms(2) have nshp: "length (sl_shapes s') = length (sl_shapes s) - 1"
    unfolding shp delete_at_def by simp
  have idx': "sl_index s' =
      map (\<lambda>j. if i < j then j - 1 else j) (filter (\<lambda>j. j \<noteq> i) (sl_index s))"
    using idx unfolding renumber_index_written .
  have mvi': "sl_mesh_vertices_index s' =
       map (\<lambda>(j, m). (if i < j then j - 1 else j, m))
         (filter (\<lambda>(j, m). j \<noteq> i) (sl_mesh_vertices_index s))"
    using mvi unfolding renumber_tag_written other_tag_written .
  have mti': "sl_mesh_triangles_index s' =
       map (\<lambda>(j, m). (if i < j then j - 1 else j, m))
         (filter (\<lambda>(j, m). j \<noteq> i) (sl_mesh_triangles_index s))"
    using mti unfolding renumber_tag_written other_tag_written .
  have v1: "\<forall>j \<in> set (sl_index s'). j < length (sl_shapes s')"
  proof
    fix j assume "j \<in> set (sl_index s')"
    then obtain j0 where j0: "j0 \<in> set (sl_index s)" "j0 \<noteq> i"
      and j: "j = (if i < j0 then j0 - 1 else j0)"
      unfolding idx' by auto
    from j0(1) have "j0 < length (sl_shapes s)" by (rule consistentD(7) [OF assms(1)])
    from renumbered_below [OF this j0(2) assms(2)] show "j < length (sl_shapes s')"
      unfolding nshp j .
  qed
  have v2: "\<forall>(j, m) \<in> set (sl_mesh_vertices_index s'). j < length (sl_shapes s')"
  proof (intro ballI, clarify)
    fix j m assume "(j, m) \<in> set (sl_mesh_vertices_index s')"
    then obtain j0 where j0: "(j0, m) \<in> set (sl_mesh_vertices_index s)" "j0 \<noteq> i"
      and j: "j = (if i < j0 then j0 - 1 else j0)"
      unfolding mvi' by auto
    from consistentD(8) [OF assms(1) j0(1)] have "j0 < length (sl_shapes s)" by simp
    from renumbered_below [OF this j0(2) assms(2)] show "j < length (sl_shapes s')"
      unfolding nshp j .
  qed
  have v3: "\<forall>(j, m) \<in> set (sl_mesh_triangles_index s'). j < length (sl_shapes s')"
  proof (intro ballI, clarify)
    fix j m assume "(j, m) \<in> set (sl_mesh_triangles_index s')"
    then obtain j0 where j0: "(j0, m) \<in> set (sl_mesh_triangles_index s)" "j0 \<noteq> i"
      and j: "j = (if i < j0 then j0 - 1 else j0)"
      unfolding mti' by auto
    from consistentD(9) [OF assms(1) j0(1)] have "j0 < length (sl_shapes s)" by simp
    from renumbered_below [OF this j0(2) assms(2)] show "j < length (sl_shapes s')"
      unfolding nshp j .
  qed
  have apart: "tri_within 0 (int (block_lo s i)) t \<or>
      tri_within (int (block_lo s i + block_len s i)) (int (length (sl_mesh_vertices s))) t"
    if "t \<in> set (kept_triangles i s)" for t
  proof -
    from kept_triangles_zip [OF that] obtain g where
      "(t, g) \<in> set (zip (sl_mesh_triangles s) (sl_mesh_triangles_index s))" "fst g \<noteq> i"
      by blast
    then show ?thesis by (rule kept_triangle_apart [OF assms])
  qed
  have same: "map (lower_above (int (block_lo s i)) (int (block_len s i))) (kept_triangles i s) =
      map (lower_above (int (block_lo s i + block_len s i - 1)) (int (block_len s i)))
        (kept_triangles i s)"
    by (rule map_cong [OF refl]) (rule lower_above_outside(1) [OF span(1) top apart])
  have kept: "kept_triangles i s = map fst (filter (\<lambda>(t, j, m). j \<noteq> i)
      (zip (sl_mesh_triangles s) (sl_mesh_triangles_index s)))"
    unfolding kept_triangles_def by (simp add: case_prod_unfold)
  from tris same have "sl_mesh_triangles s' =
      map (lower_above (int (block_lo s i + block_len s i - 1)) (int (block_len s i)))
        (kept_triangles i s)"
    by (rule trans)
  then have tris': "sl_mesh_triangles s' =
       map (\<lambda>(a, b, c).
              (if \<forall>p < length (sl_mesh_vertices_index s).
                    fst (sl_mesh_vertices_index s ! p) = i \<longrightarrow> int p < a
               then a - int (length (filter (\<lambda>(j, m). j = i) (sl_mesh_vertices_index s)))
               else a,
               if \<forall>p < length (sl_mesh_vertices_index s).
                    fst (sl_mesh_vertices_index s ! p) = i \<longrightarrow> int p < b
               then b - int (length (filter (\<lambda>(j, m). j = i) (sl_mesh_vertices_index s)))
               else b,
               if \<forall>p < length (sl_mesh_vertices_index s).
                    fst (sl_mesh_vertices_index s ! p) = i \<longrightarrow> int p < c
               then c - int (length (filter (\<lambda>(j, m). j = i) (sl_mesh_vertices_index s)))
               else c))
         (map fst (filter (\<lambda>(t, j, m). j \<noteq> i)
                     (zip (sl_mesh_triangles s) (sl_mesh_triangles_index s))))"
    unfolding after_block_iff [OF ok] count kept lower_above_written .
  have valid: "\<forall>(a, b, c) \<in> set (sl_mesh_triangles s').
        0 \<le> a \<and> a < int (length (sl_mesh_vertices s')) \<and>
        0 \<le> b \<and> b < int (length (sl_mesh_vertices s')) \<and>
        0 \<le> c \<and> c < int (length (sl_mesh_vertices s'))"
  proof (intro ballI, clarify)
    fix a b c assume "(a, b, c) \<in> set (sl_mesh_triangles s')"
    then obtain t where t: "t \<in> set (kept_triangles i s)"
      and u: "(a, b, c) = lower_above (int (block_lo s i)) (int (block_len s i)) t"
      unfolding tris by auto
    from lower_above_outside(2) [OF span(1) top apart [OF t]]
    have "tri_within 0 (int (length (sl_mesh_vertices s'))) (a, b, c)"
      unfolding u len .
    then show "0 \<le> a \<and> a < int (length (sl_mesh_vertices s')) \<and>
        0 \<le> b \<and> b < int (length (sl_mesh_vertices s')) \<and>
        0 \<le> c \<and> c < int (length (sl_mesh_vertices s'))"
      by (simp add: tri_within_def)
  qed
  from len have len': "length (sl_mesh_vertices s') =
       length (sl_mesh_vertices s) -
         length (filter (\<lambda>(j, m). j = i) (sl_mesh_vertices_index s))"
    unfolding count .
  from res nshp idx' mvi' mti' v1 v2 v3 len' tris' valid show ?thesis by blast
qed

theorem remove_one_renumbers_witness:
  "consistent two_shapes \<and> 0 < length (sl_shapes two_shapes) \<and>
   (\<exists>s'. remove_one 0 True two_shapes = Inr s' \<and>
      length (sl_shapes s') = 1 \<and>
      sl_index s' = [0, 0] \<and>
      sl_mesh_vertices_index s' = [(0, 1), (0, 1), (0, 1), (0, 1)] \<and>
      sl_mesh_triangles_index s' = [(0, 1), (0, 1)] \<and>
      length (sl_mesh_vertices s') = 4 \<and>
      sl_mesh_triangles s' = [(0, 1, 3), (0, 2, 3)])"
proof -
  have pos: "0 < length (sl_shapes two_shapes)" by (simp add: two_shapes_def)
  then have b0: "block_ok two_shapes 0" by (rule consistentD(10) [OF two_shapes_consistent])
  have last0: "block_lo two_shapes 0 + block_len two_shapes 0 - 1 = 3"
    unfolding block_lo_def block_len_def two_shapes_blocks by simp
  from remove_one_renumbers [OF two_shapes_consistent pos] obtain s' where
    res: "remove_one 0 True two_shapes = Inr s'"
    and shp: "length (sl_shapes s') = length (sl_shapes two_shapes) - 1"
    and idx: "sl_index s' =
      map (\<lambda>j. if 0 < j then j - 1 else j) (filter (\<lambda>j. j \<noteq> 0) (sl_index two_shapes))"
    and mvi: "sl_mesh_vertices_index s' =
       map (\<lambda>(j, m). (if 0 < j then j - 1 else j, m))
         (filter (\<lambda>(j, m). j \<noteq> 0) (sl_mesh_vertices_index two_shapes))"
    and mti: "sl_mesh_triangles_index s' =
       map (\<lambda>(j, m). (if 0 < j then j - 1 else j, m))
         (filter (\<lambda>(j, m). j \<noteq> 0) (sl_mesh_triangles_index two_shapes))"
    and len: "length (sl_mesh_vertices s') =
       length (sl_mesh_vertices two_shapes) -
         length (filter (\<lambda>(j, m). j = 0) (sl_mesh_vertices_index two_shapes))"
    and tris: "sl_mesh_triangles s' =
       map (\<lambda>(a, b, c).
              (if \<forall>p < length (sl_mesh_vertices_index two_shapes).
                    fst (sl_mesh_vertices_index two_shapes ! p) = 0 \<longrightarrow> int p < a
               then a - int (length (filter (\<lambda>(j, m). j = 0)
                      (sl_mesh_vertices_index two_shapes)))
               else a,
               if \<forall>p < length (sl_mesh_vertices_index two_shapes).
                    fst (sl_mesh_vertices_index two_shapes ! p) = 0 \<longrightarrow> int p < b
               then b - int (length (filter (\<lambda>(j, m). j = 0)
                      (sl_mesh_vertices_index two_shapes)))
               else b,
               if \<forall>p < length (sl_mesh_vertices_index two_shapes).
                    fst (sl_mesh_vertices_index two_shapes ! p) = 0 \<longrightarrow> int p < c
               then c - int (length (filter (\<lambda>(j, m). j = 0)
                      (sl_mesh_vertices_index two_shapes)))
               else c))
         (map fst (filter (\<lambda>(t, j, m). j \<noteq> 0)
                     (zip (sl_mesh_triangles two_shapes) (sl_mesh_triangles_index two_shapes))))"
    by blast
  from shp have c1: "length (sl_shapes s') = 1" by (simp add: two_shapes_def)
  from idx have c2: "sl_index s' = [0, 0]" by (simp add: two_shapes_def)
  from mvi have c3: "sl_mesh_vertices_index s' = [(0, 1), (0, 1), (0, 1), (0, 1)]"
    by (simp add: two_shapes_def)
  from mti have c4: "sl_mesh_triangles_index s' = [(0, 1), (0, 1)]"
    by (simp add: two_shapes_def)
  from len have c5: "length (sl_mesh_vertices s') = 4" by (simp add: two_shapes_def)
  from tris have c6: "sl_mesh_triangles s' = [(0, 1, 3), (0, 2, 3)]"
    unfolding after_block_iff [OF b0] last0 by (simp add: two_shapes_def)
  from two_shapes_consistent pos res c1 c2 c3 c4 c5 c6 show ?thesis by blast
qed

lemma add_meshes_fields:
  assumes "length (sh_edge_offsets sh) = length (sh_edge_vertices sh)"
  shows "\<exists>s1 vs. add_meshes sh j s = Inr s1 \<and>
     stroke_vertices (sh_edge_vertices sh) (sh_edge_width sh) (sh_edge_offsets sh) = Inr vs \<and>
     length vs = length (sh_edge_vertices sh) \<and>
     sl_shapes s1 = sl_shapes s \<and> sl_z_order s1 = sl_z_order s \<and>
     sl_vertices s1 = sl_vertices s @ sh_data sh \<and>
     sl_index s1 = sl_index s @ replicate (length (sh_data sh)) j \<and>
     sl_mesh_vertices s1 = sl_mesh_vertices s @ (vs @ sh_face_vertices sh) \<and>
     sl_mesh_vertices_index s1 =
       sl_mesh_vertices_index s @
         (replicate (length vs) (j, 1) @ replicate (length (sh_face_vertices sh)) (j, 0)) \<and>
     sl_mesh_triangles s1 =
       sl_mesh_triangles s @
         (map (shift_tri (int (length (sl_mesh_vertices s)))) (sh_edge_triangles sh) @
          map (shift_tri (int (length (sl_mesh_vertices s) + length vs)))
            (sh_face_triangles sh)) \<and>
     sl_mesh_triangles_index s1 =
       sl_mesh_triangles_index s @
         (replicate (length (sh_edge_triangles sh)) (j, 1) @
          replicate (length (sh_face_triangles sh)) (j, 0)) \<and>
     sl_mesh_triangles_colors s1 =
       sl_mesh_triangles_colors s @
         (replicate (length (sh_edge_triangles sh)) (sh_edge_color sh) @
          replicate (length (sh_face_triangles sh)) (sh_face_color sh)) \<and>
     sl_mesh_triangles_z_order s1 =
       sl_mesh_triangles_z_order s @
         (replicate (length (sh_edge_triangles sh)) (sh_z_order sh) @
          replicate (length (sh_face_triangles sh)) (sh_z_order sh))"
proof -
  from stroke_vertices_length [OF assms] obtain vs where
    vs: "stroke_vertices (sh_edge_vertices sh) (sh_edge_width sh) (sh_edge_offsets sh) = Inr vs"
      "length vs = length (sh_edge_vertices sh)"
    by blast
  show ?thesis
    unfolding add_meshes_def vs(1) ebind_def
    using vs(2) by (simp add: append_mesh_def Let_def)
qed



section \<open>The collection stays consistent\<close>

text \<open>
  Every collection built from the empty one by \<open>add\<close>, \<open>remove_one\<close> with renumbering and
  \<open>edit\<close>, with shapes whose meshes are well formed, is consistent.
\<close>

lemma consistent_arrays:
  "consistent s \<longleftrightarrow>
     length (sl_z_order s) = length (sl_shapes s) \<and> arrays_ok {0..<length (sl_shapes s)} s"
  unfolding consistent_def arrays_ok_def list_all_iff by auto

lemma removed_positions_sorted:
  "sorted (removed_positions j tags)" "distinct (removed_positions j tags)"
  unfolding removed_positions_def by (simp_all add: sorted_wrt_filter)

lemma removed_positions_upt:
  assumes "\<And>p. (p < length tags \<and> fst (tags ! p) = j) \<longleftrightarrow> (a \<le> p \<and> p < a + k)"
  shows "removed_positions j tags = [a..<a + k]"
proof (rule sorted_distinct_set_unique)
  show "set (removed_positions j tags) = set [a..<a + k]"
  proof (rule set_eqI)
    fix p
    have "p \<in> set (removed_positions j tags) \<longleftrightarrow>
        p < length tags \<and> fst (tags ! p) = j"
      unfolding removed_positions_set by blast
    also have "\<dots> \<longleftrightarrow> a \<le> p \<and> p < a + k" by (rule assms)
    also have "\<dots> \<longleftrightarrow> p \<in> set [a..<a + k]" by simp
    finally show "p \<in> set (removed_positions j tags) \<longleftrightarrow> p \<in> set [a..<a + k]" .
  qed
qed (simp_all add: removed_positions_sorted)

lemma block_okI:
  assumes "0 < k"
    and "\<And>p. (p < length (sl_mesh_vertices_index s) \<and> fst (sl_mesh_vertices_index s ! p) = j)
           \<longleftrightarrow> (a \<le> p \<and> p < a + k)"
    and "\<And>t g. (t, g) \<in> set (zip (sl_mesh_triangles s) (sl_mesh_triangles_index s)) \<Longrightarrow>
           fst g = j \<Longrightarrow> tri_within (int a) (int (a + k)) t"
  shows "block_ok s j" and "block_lo s j = a" and "block_len s j = k"
proof -
  have eq: "removed_positions j (sl_mesh_vertices_index s) = [a..<a + k]"
    by (rule removed_positions_upt) (rule assms(2))
  from assms(1) have h: "hd [a..<a + k] = a" "length [a..<a + k] = k" "[a..<a + k] \<noteq> []"
    by simp_all
  show "block_lo s j = a" unfolding block_lo_def eq by (rule h(1))
  show "block_len s j = k" unfolding block_len_def eq by (rule h(2))
  have tri: "list_all (\<lambda>(t, g). fst g = j \<longrightarrow> tri_within (int a) (int (a + k)) t)
      (zip (sl_mesh_triangles s) (sl_mesh_triangles_index s))"
    unfolding list_all_iff using assms(3) by blast
  show "block_ok s j"
    unfolding block_ok_def Let_def eq h using h(3) tri by blast
qed

lemma shift_tri_within:
  assumes "tri_within 0 (int n) t"
  shows "tri_within (int m) (int (m + n)) (shift_tri (int m) t)"
  using assms by (simp add: tri_within_def shift_tri_def)

lemma tri_within_mono:
  assumes "tri_within lo hi t" "lo' \<le> lo" "hi \<le> hi'"
  shows "tri_within lo' hi' t"
  using assms by (auto simp: tri_within_def)

lemma append_step:
  assumes ok: "arrays_ok L s" and fresh: "i \<notin> L" and sh: "shape_ok sh"
  shows "\<exists>s2. add_meshes sh i s = Inr s2 \<and> sl_shapes s2 = sl_shapes s \<and>
           sl_z_order s2 = sl_z_order s \<and> arrays_ok (insert i L) s2"
proof -
  from sh have so: "length (sh_edge_offsets sh) = length (sh_edge_vertices sh)"
    and ne: "sh_edge_vertices sh \<noteq> []"
    and et: "\<And>t. t \<in> set (sh_edge_triangles sh) \<Longrightarrow>
        tri_within 0 (int (length (sh_edge_vertices sh))) t"
    and ft: "\<And>t. t \<in> set (sh_face_triangles sh) \<Longrightarrow>
        tri_within 0 (int (length (sh_face_vertices sh))) t"
    unfolding shape_ok_def list_all_iff by blast+
  from ok have len: "length (sl_index s) = length (sl_vertices s)"
      "length (sl_mesh_vertices_index s) = length (sl_mesh_vertices s)"
      "length (sl_mesh_triangles_index s) = length (sl_mesh_triangles s)"
      "length (sl_mesh_triangles_colors s) = length (sl_mesh_triangles s)"
      "length (sl_mesh_triangles_z_order s) = length (sl_mesh_triangles s)"
    and tg: "set (sl_index s) \<subseteq> L" "fst ` set (sl_mesh_vertices_index s) \<subseteq> L"
      "fst ` set (sl_mesh_triangles_index s) \<subseteq> L"
    and blocks: "\<And>j. j \<in> L \<Longrightarrow> block_ok s j"
    unfolding arrays_ok_def by blast+
  define M where "M = length (sl_mesh_vertices s)"
  from add_meshes_fields [OF so, of i s] obtain s2 vs where
    r: "add_meshes sh i s = Inr s2"
    and lv: "length vs = length (sh_edge_vertices sh)"
    and f1: "sl_shapes s2 = sl_shapes s" "sl_z_order s2 = sl_z_order s"
    and f2: "sl_vertices s2 = sl_vertices s @ sh_data sh"
      "sl_index s2 = sl_index s @ replicate (length (sh_data sh)) i"
    and f3: "sl_mesh_vertices s2 = sl_mesh_vertices s @ (vs @ sh_face_vertices sh)"
      "sl_mesh_vertices_index s2 =
       sl_mesh_vertices_index s @
         (replicate (length vs) (i, 1) @ replicate (length (sh_face_vertices sh)) (i, 0))"
    and f4: "sl_mesh_triangles s2 =
       sl_mesh_triangles s @
         (map (shift_tri (int M)) (sh_edge_triangles sh) @
          map (shift_tri (int (M + length vs))) (sh_face_triangles sh))"
      "sl_mesh_triangles_index s2 =
       sl_mesh_triangles_index s @
         (replicate (length (sh_edge_triangles sh)) (i, 1) @
          replicate (length (sh_face_triangles sh)) (i, 0))"
    and f5: "sl_mesh_triangles_colors s2 =
       sl_mesh_triangles_colors s @
         (replicate (length (sh_edge_triangles sh)) (sh_edge_color sh) @
          replicate (length (sh_face_triangles sh)) (sh_face_color sh))"
    and f6: "sl_mesh_triangles_z_order s2 =
       sl_mesh_triangles_z_order s @
         (replicate (length (sh_edge_triangles sh)) (sh_z_order sh) @
          replicate (length (sh_face_triangles sh)) (sh_z_order sh))"
    unfolding M_def by blast
  define K where "K = length vs + length (sh_face_vertices sh)"
  from ne lv have Kpos: "0 < K" unfolding K_def by simp
  have old_tag: "fst (sl_mesh_vertices_index s ! p) \<in> L"
    if "p < length (sl_mesh_vertices_index s)" for p
    using tg(2) that by (metis image_subset_iff nth_mem)
  have new_tag: "fst (sl_mesh_vertices_index s2 ! p) = i"
    if "length (sl_mesh_vertices_index s) \<le> p" "p < length (sl_mesh_vertices_index s) + K" for p
  proof -
    define q where "q = p - length (sl_mesh_vertices_index s)"
    from that have q: "q < length vs + length (sh_face_vertices sh)"
      unfolding q_def K_def by arith
    from that(1) have "sl_mesh_vertices_index s2 ! p =
        (replicate (length vs) (i, 1) @ replicate (length (sh_face_vertices sh)) (i, 0)) ! q"
      unfolding f3 q_def by (simp only: nth_append) simp
    also from q have "fst \<dots> = i"
      by (cases "q < length vs") (simp_all add: nth_append)
    finally show ?thesis .
  qed
  have low_tag: "sl_mesh_vertices_index s2 ! p = sl_mesh_vertices_index s ! p"
    if "p < length (sl_mesh_vertices_index s)" for p
    unfolding f3 using that by (simp add: nth_append)
  have len2: "length (sl_mesh_vertices_index s2) = length (sl_mesh_vertices_index s) + K"
    unfolding f3 K_def by simp
  have zip2: "zip (sl_mesh_triangles s2) (sl_mesh_triangles_index s2) =
      zip (sl_mesh_triangles s) (sl_mesh_triangles_index s) @
      (zip (map (shift_tri (int M)) (sh_edge_triangles sh))
         (replicate (length (sh_edge_triangles sh)) (i, 1)) @
       zip (map (shift_tri (int (M + length vs))) (sh_face_triangles sh))
         (replicate (length (sh_face_triangles sh)) (i, 0)))"
    unfolding f4 using len(3) by simp
  have old_tri: "fst g \<in> L"
    if "(t, g) \<in> set (zip (sl_mesh_triangles s) (sl_mesh_triangles_index s))" for t g
    using tg(3) set_zip_rightD [OF that] by blast
  have block_old: "block_ok s2 j" if j: "j \<in> L" for j
  proof -
    from j fresh have ji: "j \<noteq> i" by blast
    note span = block_span [OF blocks [OF j]]
    show ?thesis
    proof (rule block_okI(1) [OF span(1)])
      fix p
      show "(p < length (sl_mesh_vertices_index s2) \<and> fst (sl_mesh_vertices_index s2 ! p) = j)
          \<longleftrightarrow> (block_lo s j \<le> p \<and> p < block_lo s j + block_len s j)"
      proof (cases "p < length (sl_mesh_vertices_index s)")
        case True
        with span(3) [of p] low_tag [OF True] show ?thesis unfolding len2 by auto
      next
        case False
        with span(2) have n: "\<not> p < block_lo s j + block_len s j" by simp
        from False new_tag [of p] ji have "p < length (sl_mesh_vertices_index s2) \<Longrightarrow>
            fst (sl_mesh_vertices_index s2 ! p) \<noteq> j" unfolding len2 by auto
        with n show ?thesis by blast
      qed
    next
      fix t g
      assume m: "(t, g) \<in> set (zip (sl_mesh_triangles s2) (sl_mesh_triangles_index s2))"
        and g: "fst g = j"
      from m have "(t, g) \<in> set (zip (sl_mesh_triangles s) (sl_mesh_triangles_index s)) \<or>
          fst g = i"
        unfolding zip2 by (auto dest!: set_zip_rightD)
      with g ji have "(t, g) \<in> set (zip (sl_mesh_triangles s) (sl_mesh_triangles_index s))"
        by blast
      from block_triangles [OF blocks [OF j] this g]
      show "tri_within (int (block_lo s j)) (int (block_lo s j + block_len s j)) t" .
    qed
  qed
  have block_new: "block_ok s2 i"
  proof (rule block_okI(1) [OF Kpos])
    fix p
    show "(p < length (sl_mesh_vertices_index s2) \<and> fst (sl_mesh_vertices_index s2 ! p) = i)
        \<longleftrightarrow> (M \<le> p \<and> p < M + K)"
    proof (cases "p < length (sl_mesh_vertices_index s)")
      case True
      from old_tag [OF True] fresh low_tag [OF True]
      have "fst (sl_mesh_vertices_index s2 ! p) \<noteq> i" by auto
      with True show ?thesis unfolding M_def len(2) [symmetric] by simp
    next
      case False
      with new_tag [of p] show ?thesis unfolding len2 M_def len(2) [symmetric] by auto
    qed
  next
    fix t g
    assume m: "(t, g) \<in> set (zip (sl_mesh_triangles s2) (sl_mesh_triangles_index s2))"
      and g: "fst g = i"
    have "(t, g) \<in> set (zip (sl_mesh_triangles s) (sl_mesh_triangles_index s)) \<or>
        (t, g) \<in> set (zip (map (shift_tri (int M)) (sh_edge_triangles sh))
          (replicate (length (sh_edge_triangles sh)) (i, 1))) \<or>
        (t, g) \<in> set (zip (map (shift_tri (int (M + length vs))) (sh_face_triangles sh))
          (replicate (length (sh_face_triangles sh)) (i, 0)))"
      using m unfolding zip2 set_append Un_iff by blast
    then consider
      (old) "(t, g) \<in> set (zip (sl_mesh_triangles s) (sl_mesh_triangles_index s))"
      | (edge) "t \<in> set (map (shift_tri (int M)) (sh_edge_triangles sh))"
      | (face) "t \<in> set (map (shift_tri (int (M + length vs))) (sh_face_triangles sh))"
      by (blast dest: set_zip_leftD)
    then show "tri_within (int M) (int (M + K)) t"
    proof cases
      case old
      from old_tri [OF old] g fresh show ?thesis by simp
    next
      case edge
      then obtain t0 where t0: "t0 \<in> set (sh_edge_triangles sh)" "t = shift_tri (int M) t0"
        by auto
      from shift_tri_within [OF et [OF t0(1)], of M]
      show ?thesis unfolding t0(2) K_def lv by (rule tri_within_mono) simp_all
    next
      case face
      then obtain t0 where t0: "t0 \<in> set (sh_face_triangles sh)"
        "t = shift_tri (int (M + length vs)) t0"
        by auto
      from shift_tri_within [OF ft [OF t0(1)], of "M + length vs"]
      show ?thesis unfolding t0(2) K_def by (rule tri_within_mono) simp_all
    qed
  qed
  have "arrays_ok (insert i L) s2"
    unfolding arrays_ok_def
  proof (intro conjI ballI)
    show "length (sl_index s2) = length (sl_vertices s2)" unfolding f2 using len(1) by simp
    show "length (sl_mesh_vertices_index s2) = length (sl_mesh_vertices s2)"
      unfolding f3 using len(2) by simp
    show "length (sl_mesh_triangles_index s2) = length (sl_mesh_triangles s2)"
      unfolding f4 using len(3) by simp
    show "length (sl_mesh_triangles_colors s2) = length (sl_mesh_triangles s2)"
      unfolding f4 f5 using len(4) by simp
    show "length (sl_mesh_triangles_z_order s2) = length (sl_mesh_triangles s2)"
      unfolding f4 f6 using len(5) by simp
    show "set (sl_index s2) \<subseteq> insert i L" unfolding f2 using tg(1) by auto
    show "fst ` set (sl_mesh_vertices_index s2) \<subseteq> insert i L" unfolding f3 using tg(2) by auto
    show "fst ` set (sl_mesh_triangles_index s2) \<subseteq> insert i L"
      unfolding f4 using tg(3) by auto
    fix j assume "j \<in> insert i L"
    with block_old block_new show "block_ok s2 j" by blast
  qed
  with r f1 show ?thesis by blast
qed

lemma filter_block:
  assumes span: "\<And>p. (p < length tags \<and> fst (tags ! p) = i) \<longleftrightarrow> (lo \<le> p \<and> p < lo + k)"
    and top: "lo + k \<le> length tags"
  shows "filter (\<lambda>g. fst g \<noteq> i) tags = take lo tags @ drop (lo + k) tags"
proof -
  have split: "tags = take lo tags @ take k (drop lo tags) @ drop (lo + k) tags"
  proof -
    have "drop lo tags = take k (drop lo tags) @ drop k (drop lo tags)"
      by (simp only: append_take_drop_id)
    also have "drop k (drop lo tags) = drop (lo + k) tags"
      by (simp add: add.commute)
    finally have "take lo tags @ drop lo tags =
        take lo tags @ take k (drop lo tags) @ drop (lo + k) tags"
      by (simp only:)
    then show ?thesis by (simp only: append_take_drop_id)
  qed
  have a: "filter (\<lambda>g. fst g \<noteq> i) (take lo tags) = take lo tags"
  proof (rule filter_True, rule ballI)
    fix x assume "x \<in> set (take lo tags)"
    then obtain p where p: "p < length (take lo tags)" "x = take lo tags ! p"
      by (auto simp: in_set_conv_nth)
    then have "p < lo" "p < length tags" "x = tags ! p" by simp_all
    with span [of p] show "fst x \<noteq> i" by auto
  qed
  have b: "filter (\<lambda>g. fst g \<noteq> i) (take k (drop lo tags)) = []"
  proof -
    have "fst x = i" if "x \<in> set (take k (drop lo tags))" for x
    proof -
      from that obtain p where p: "p < length (take k (drop lo tags))"
        "x = take k (drop lo tags) ! p"
        by (auto simp: in_set_conv_nth)
      then have "p < k" "lo + p < length tags" "x = tags ! (lo + p)" by auto
      with span [of "lo + p"] show ?thesis by auto
    qed
    then show ?thesis by (simp add: filter_empty_conv)
  qed
  have c: "filter (\<lambda>g. fst g \<noteq> i) (drop (lo + k) tags) = drop (lo + k) tags"
  proof (rule filter_True, rule ballI)
    fix x assume "x \<in> set (drop (lo + k) tags)"
    then obtain p where p: "p < length (drop (lo + k) tags)" "x = drop (lo + k) tags ! p"
      by (auto simp: in_set_conv_nth)
    with top have "lo + k + p < length tags" "x = tags ! (lo + k + p)" by auto
    with span [of "lo + k + p"] show "fst x \<noteq> i" by auto
  qed
  have "filter (\<lambda>g. fst g \<noteq> i) tags =
      filter (\<lambda>g. fst g \<noteq> i) (take lo tags @ take k (drop lo tags) @ drop (lo + k) tags)"
    using split by (rule arg_cong)
  also have "\<dots> = take lo tags @ drop (lo + k) tags"
    unfolding filter_append a b c by simp
  finally show ?thesis .
qed

lemma filtered_nth:
  assumes "lo + k \<le> length tags"
  shows "length (take lo tags @ drop (lo + k) tags) = length tags - k"
    and "p < lo \<Longrightarrow> (take lo tags @ drop (lo + k) tags) ! p = tags ! p"
    and "lo \<le> p \<Longrightarrow> p < length tags - k \<Longrightarrow>
           (take lo tags @ drop (lo + k) tags) ! p = tags ! (p + k)"
proof -
  from assms show "length (take lo tags @ drop (lo + k) tags) = length tags - k" by simp
  from assms show "p < lo \<Longrightarrow> (take lo tags @ drop (lo + k) tags) ! p = tags ! p"
    by (simp add: nth_append)
  assume ge: "lo \<le> p" and lt: "p < length tags - k"
  from assms have l: "length (take lo tags) = lo" by simp
  from ge have "(take lo tags @ drop (lo + k) tags) ! p = drop (lo + k) tags ! (p - lo)"
    unfolding nth_append l by simp
  also from assms have "\<dots> = tags ! (lo + k + (p - lo))"
    by (simp only: nth_drop)
  also from ge have "lo + k + (p - lo) = p + k" by simp
  finally show "(take lo tags @ drop (lo + k) tags) ! p = tags ! (p + k)" .
qed

lemma filtered_positions:
  assumes top: "lo + k \<le> length tags" and kpos: "0 < k" and kjpos: "0 < kj"
    and bi: "\<And>p. (p < length tags \<and> fst (tags ! p) = i) \<longleftrightarrow> (lo \<le> p \<and> p < lo + k)"
    and bj: "\<And>p. (p < length tags \<and> fst (tags ! p) = j) \<longleftrightarrow> (a \<le> p \<and> p < a + kj)"
    and apart: "a + kj \<le> lo \<or> lo + k \<le> a"
  shows "(q < length (filter (\<lambda>g. fst g \<noteq> i) tags) \<and>
          fst (filter (\<lambda>g. fst g \<noteq> i) tags ! q) = j) \<longleftrightarrow>
         ((if a < lo then a else a - k) \<le> q \<and> q < (if a < lo then a else a - k) + kj)"
proof -
  note fb = filter_block [OF bi top]
  note fn = filtered_nth [OF top]
  show ?thesis
  proof (cases "q < lo")
    case True
    from True top have q1: "q < length tags - k" "q < length tags" by simp_all
    from fn(2) [OF True] have nth: "filter (\<lambda>g. fst g \<noteq> i) tags ! q = tags ! q"
      unfolding fb .
    have len: "length (filter (\<lambda>g. fst g \<noteq> i) tags) = length tags - k"
      unfolding fb by (rule fn(1))
    from bj [of q] q1 have "fst (tags ! q) = j \<longleftrightarrow> a \<le> q \<and> q < a + kj" by blast
    with True q1 apart kpos kjpos show ?thesis unfolding nth len by auto
  next
    case False
    then have ge: "lo \<le> q" by simp
    have len: "length (filter (\<lambda>g. fst g \<noteq> i) tags) = length tags - k"
      unfolding fb by (rule fn(1))
    show ?thesis
    proof (cases "q < length tags - k")
      case True
      from fn(3) [OF ge True] have nth: "filter (\<lambda>g. fst g \<noteq> i) tags ! q = tags ! (q + k)"
        unfolding fb .
      from True have "q + k < length tags" by simp
      with bj [of "q + k"] have "fst (tags ! (q + k)) = j \<longleftrightarrow> a \<le> q + k \<and> q + k < a + kj"
        by blast
      with True ge apart kpos kjpos show ?thesis unfolding nth len by auto
    next
      case False
      have "a + kj \<le> length tags"
      proof -
        from kjpos have "a \<le> a + kj - 1 \<and> a + kj - 1 < a + kj" by arith
        with bj [of "a + kj - 1"] have "a + kj - 1 < length tags" by blast
        with kjpos show ?thesis by arith
      qed
      with False ge apart kpos kjpos top show ?thesis unfolding len by auto
    qed
  qed
qed

lemma zip_kept:
  assumes "length tags = length xs"
  shows "zip (map f (map fst (filter (\<lambda>(t, g). P g) (zip xs tags)))) (filter P tags) =
         map (\<lambda>(t, g). (f t, g)) (filter (\<lambda>(t, g). P g) (zip xs tags))"
proof -
  have "filter P tags = filter P (map snd (zip xs tags))" using assms by simp
  also have "\<dots> = map snd (filter (\<lambda>(t, g). P g) (zip xs tags))"
    by (simp add: filter_map comp_def case_prod_unfold)
  finally have tg: "filter P tags = map snd (filter (\<lambda>(t, g). P g) (zip xs tags))" .
  have "zip (map f (map fst ys)) (map snd ys) = map (\<lambda>(t, g). (f t, g)) ys" for ys
    by (induction ys) auto
  then show ?thesis unfolding tg .
qed

lemma remove_keep_fields:
  assumes ok: "arrays_ok L s" and i: "i \<in> L"
  shows "\<exists>s1. remove_one i False s = Inr s1 \<and>
     sl_shapes s1 = sl_shapes s \<and> sl_z_order s1 = sl_z_order s \<and>
     sl_vertices s1 =
       map fst (filter (\<lambda>(x, g). g \<noteq> i) (zip (sl_vertices s) (sl_index s))) \<and>
     sl_index s1 = filter (\<lambda>j. j \<noteq> i) (sl_index s) \<and>
     sl_mesh_vertices s1 =
       map fst (filter (\<lambda>(x, g). fst g \<noteq> i)
                  (zip (sl_mesh_vertices s) (sl_mesh_vertices_index s))) \<and>
     sl_mesh_vertices_index s1 = filter (\<lambda>g. fst g \<noteq> i) (sl_mesh_vertices_index s) \<and>
     sl_mesh_triangles s1 =
       map (lower_above (int (block_lo s i)) (int (block_len s i))) (kept_triangles i s) \<and>
     sl_mesh_triangles_index s1 = filter (\<lambda>g. fst g \<noteq> i) (sl_mesh_triangles_index s) \<and>
     sl_mesh_triangles_colors s1 =
       map fst (filter (\<lambda>(x, g). fst g \<noteq> i)
                  (zip (sl_mesh_triangles_colors s) (sl_mesh_triangles_index s))) \<and>
     sl_mesh_triangles_z_order s1 =
       map fst (filter (\<lambda>(x, g). fst g \<noteq> i)
                  (zip (sl_mesh_triangles_z_order s) (sl_mesh_triangles_index s)))"
proof -
  from ok have len: "length (sl_index s) = length (sl_vertices s)"
      "length (sl_mesh_vertices_index s) = length (sl_mesh_vertices s)"
      "length (sl_mesh_triangles_index s) = length (sl_mesh_triangles s)"
      "length (sl_mesh_triangles_colors s) = length (sl_mesh_triangles s)"
      "length (sl_mesh_triangles_z_order s) = length (sl_mesh_triangles s)"
    and blocks: "\<And>j. j \<in> L \<Longrightarrow> block_ok s j"
    unfolding arrays_ok_def by blast+
  note blk = block_last [OF blocks [OF i]]
  have m1: "np_mask (sl_vertices s) (map (\<lambda>j. j \<noteq> i) (sl_index s)) =
      Inr (map fst (filter (\<lambda>(x, g). g \<noteq> i) (zip (sl_vertices s) (sl_index s))))"
    by (rule np_mask_pred [OF len(1)])
  have m2: "np_mask (sl_mesh_triangles s) (map (\<lambda>g. fst g \<noteq> i) (sl_mesh_triangles_index s)) =
      Inr (kept_triangles i s)"
    unfolding kept_triangles_def by (rule np_mask_pred [OF len(3)])
  from len(3,4) have "length (sl_mesh_triangles_index s) = length (sl_mesh_triangles_colors s)"
    by simp
  note m3 = np_mask_pred [OF this, of "\<lambda>g. fst g \<noteq> i"]
  from len(3,5) have "length (sl_mesh_triangles_index s) = length (sl_mesh_triangles_z_order s)"
    by simp
  note m4 = np_mask_pred [OF this, of "\<lambda>g. fst g \<noteq> i"]
  note m5 = np_mask_pred [OF len(2), of "\<lambda>g. fst g \<noteq> i"]
  show ?thesis
    unfolding remove_one_def m1 m2 m3 m4 m5 ebind_def Let_def blk(2,3)
    using blk(4) by simp
qed

lemma remove_renumber:
  assumes "remove_one i True s = Inr s'"
  shows "\<exists>s1. remove_one i False s = Inr s1 \<and>
     sl_shapes s1 = sl_shapes s \<and> sl_z_order s1 = sl_z_order s \<and>
     i < length (sl_shapes s1) \<and> i < length (sl_z_order s1) \<and>
     sl_shapes s' = delete_at i (sl_shapes s1) \<and>
     sl_z_order s' = delete_at i (sl_z_order s1) \<and>
     sl_vertices s' = sl_vertices s1 \<and>
     sl_index s' = map (renumber_index i) (sl_index s1) \<and>
     sl_mesh_vertices s' = sl_mesh_vertices s1 \<and>
     sl_mesh_vertices_index s' = map (renumber_tag i) (sl_mesh_vertices_index s1) \<and>
     sl_mesh_triangles s' = sl_mesh_triangles s1 \<and>
     sl_mesh_triangles_index s' = map (renumber_tag i) (sl_mesh_triangles_index s1) \<and>
     sl_mesh_triangles_colors s' = sl_mesh_triangles_colors s1 \<and>
     sl_mesh_triangles_z_order s' = sl_mesh_triangles_z_order s1"
  using assms unfolding remove_one_def ebind_def Let_def
  by (auto split: sum.splits if_splits)

lemma lower_above_block:
  assumes "tri_within (int a) (int (a + kj)) t" and "0 < k" and "0 < kj"
    and "a + kj \<le> lo \<or> lo + k \<le> a"
  shows "tri_within (int (if a < lo then a else a - k)) (int ((if a < lo then a else a - k) + kj))
           (lower_above (int lo) (int k) t)"
proof (cases "a < lo")
  case True
  with assms(3,4) have "a + kj \<le> lo" by arith
  with assms(1) True show ?thesis
    by (auto simp: tri_within_def lower_above_def)
next
  case False
  with assms(3,4) have ge: "lo + k \<le> a" by arith
  then have "int (a - k) = int a - int k" "int (a - k + kj) = int a + int kj - int k"
    by (simp_all add: of_nat_diff)
  with assms(1,2) ge False show ?thesis
    by (auto simp: tri_within_def lower_above_def)
qed

lemma filter_step:
  assumes ok: "arrays_ok L s" and i: "i \<in> L"
  shows "\<exists>s1. remove_one i False s = Inr s1 \<and> sl_shapes s1 = sl_shapes s \<and>
           sl_z_order s1 = sl_z_order s \<and> arrays_ok (L - {i}) s1"
proof -
  from ok have len: "length (sl_index s) = length (sl_vertices s)"
      "length (sl_mesh_vertices_index s) = length (sl_mesh_vertices s)"
      "length (sl_mesh_triangles_index s) = length (sl_mesh_triangles s)"
      "length (sl_mesh_triangles_colors s) = length (sl_mesh_triangles s)"
      "length (sl_mesh_triangles_z_order s) = length (sl_mesh_triangles s)"
    and tg: "set (sl_index s) \<subseteq> L" "fst ` set (sl_mesh_vertices_index s) \<subseteq> L"
      "fst ` set (sl_mesh_triangles_index s) \<subseteq> L"
    and blocks: "\<And>j. j \<in> L \<Longrightarrow> block_ok s j"
    unfolding arrays_ok_def by blast+
  from remove_keep_fields [OF ok i] obtain s1 where
    r: "remove_one i False s = Inr s1"
    and f0: "sl_shapes s1 = sl_shapes s" "sl_z_order s1 = sl_z_order s"
    and f1: "sl_vertices s1 =
       map fst (filter (\<lambda>(x, g). g \<noteq> i) (zip (sl_vertices s) (sl_index s)))"
      "sl_index s1 = filter (\<lambda>j. j \<noteq> i) (sl_index s)"
    and f2: "sl_mesh_vertices s1 =
       map fst (filter (\<lambda>(x, g). fst g \<noteq> i)
                  (zip (sl_mesh_vertices s) (sl_mesh_vertices_index s)))"
      "sl_mesh_vertices_index s1 = filter (\<lambda>g. fst g \<noteq> i) (sl_mesh_vertices_index s)"
    and f3: "sl_mesh_triangles s1 =
       map (lower_above (int (block_lo s i)) (int (block_len s i))) (kept_triangles i s)"
      "sl_mesh_triangles_index s1 = filter (\<lambda>g. fst g \<noteq> i) (sl_mesh_triangles_index s)"
    and f4: "sl_mesh_triangles_colors s1 =
       map fst (filter (\<lambda>(x, g). fst g \<noteq> i)
                  (zip (sl_mesh_triangles_colors s) (sl_mesh_triangles_index s)))"
      "sl_mesh_triangles_z_order s1 =
       map fst (filter (\<lambda>(x, g). fst g \<noteq> i)
                  (zip (sl_mesh_triangles_z_order s) (sl_mesh_triangles_index s)))"
    by blast
  note si = block_span [OF blocks [OF i]]
  have lt: "length (sl_mesh_triangles s1) = length (filter (\<lambda>g. fst g \<noteq> i) (sl_mesh_triangles_index s))"
    unfolding f3 kept_triangles_def length_map using length_masked [OF len(3)] by simp
  have zipped: "zip (sl_mesh_triangles s1) (sl_mesh_triangles_index s1) =
      map (\<lambda>(t, g). (lower_above (int (block_lo s i)) (int (block_len s i)) t, g))
        (filter (\<lambda>(t, g). fst g \<noteq> i) (zip (sl_mesh_triangles s) (sl_mesh_triangles_index s)))"
    unfolding f3 kept_triangles_def by (rule zip_kept [OF len(3)])
  have block: "block_ok s1 j" if j: "j \<in> L - {i}" for j
  proof -
    from j have jL: "j \<in> L" and ji: "i \<noteq> j" by blast+
    note sj = block_span [OF blocks [OF jL]]
    from blocks_apart [OF blocks [OF i] blocks [OF jL] ji]
    have apart: "block_lo s j + block_len s j \<le> block_lo s i \<or>
        block_lo s i + block_len s i \<le> block_lo s j" .
    show ?thesis
    proof (rule block_okI(1) [OF sj(1)])
      fix q
      show "(q < length (sl_mesh_vertices_index s1) \<and> fst (sl_mesh_vertices_index s1 ! q) = j)
          \<longleftrightarrow> ((if block_lo s j < block_lo s i then block_lo s j
                 else block_lo s j - block_len s i) \<le> q \<and>
               q < (if block_lo s j < block_lo s i then block_lo s j
                    else block_lo s j - block_len s i) + block_len s j)"
        unfolding f2 by (rule filtered_positions [OF si(2) si(1) sj(1) si(3) sj(3) apart])
    next
      fix u g
      assume m: "(u, g) \<in> set (zip (sl_mesh_triangles s1) (sl_mesh_triangles_index s1))"
        and g: "fst g = j"
      from m obtain t where t: "(t, g) \<in> set (zip (sl_mesh_triangles s) (sl_mesh_triangles_index s))"
        and u: "u = lower_above (int (block_lo s i)) (int (block_len s i)) t"
        unfolding zipped by auto
      from block_triangles [OF blocks [OF jL] t g]
      have "tri_within (int (block_lo s j)) (int (block_lo s j + block_len s j)) t" .
      from lower_above_block [OF this si(1) sj(1) apart]
      show "tri_within
          (int (if block_lo s j < block_lo s i then block_lo s j
                else block_lo s j - block_len s i))
          (int ((if block_lo s j < block_lo s i then block_lo s j
                 else block_lo s j - block_len s i) + block_len s j)) u"
        unfolding u .
    qed
  qed
  have "arrays_ok (L - {i}) s1"
    unfolding arrays_ok_def
  proof (intro conjI ballI)
    show "length (sl_index s1) = length (sl_vertices s1)"
      unfolding f1 using length_masked [OF len(1), of "\<lambda>j. j \<noteq> i"] by simp
    show "length (sl_mesh_vertices_index s1) = length (sl_mesh_vertices s1)"
      unfolding f2 using length_masked [OF len(2), of "\<lambda>g. fst g \<noteq> i"] by simp
    show "length (sl_mesh_triangles_index s1) = length (sl_mesh_triangles s1)"
      unfolding lt f3(2) by (rule refl)
    from len(3,4) have "length (sl_mesh_triangles_index s) = length (sl_mesh_triangles_colors s)"
      by simp
    from length_masked [OF this, of "\<lambda>g. fst g \<noteq> i"]
    show "length (sl_mesh_triangles_colors s1) = length (sl_mesh_triangles s1)"
      unfolding lt f4 .
    from len(3,5) have "length (sl_mesh_triangles_index s) = length (sl_mesh_triangles_z_order s)"
      by simp
    from length_masked [OF this, of "\<lambda>g. fst g \<noteq> i"]
    show "length (sl_mesh_triangles_z_order s1) = length (sl_mesh_triangles s1)"
      unfolding lt f4 .
    show "set (sl_index s1) \<subseteq> L - {i}" unfolding f1 using tg(1) by auto
    show "fst ` set (sl_mesh_vertices_index s1) \<subseteq> L - {i}" unfolding f2 using tg(2) by auto
    show "fst ` set (sl_mesh_triangles_index s1) \<subseteq> L - {i}" unfolding f3 using tg(3) by auto
    fix j assume "j \<in> L - {i}"
    then show "block_ok s1 j" by (rule block)
  qed
  with r f0 show ?thesis by blast
qed

lemma renumber_inj:
  assumes "x \<noteq> i" "y \<noteq> i" "renumber_index i x = renumber_index i y"
  shows "x = y"
  using assms by (auto simp: renumber_index_def split: if_splits)

lemma renumber_image:
  assumes "i < n"
  shows "renumber_index i ` ({0..<n} - {i}) = {0..<n - 1}"
proof (rule set_eqI, rule iffI)
  fix y assume "y \<in> renumber_index i ` ({0..<n} - {i})"
  then obtain x where x: "x \<in> {0..<n} - {i}" "y = renumber_index i x" by blast
  from x(1) have "x < n" "x \<noteq> i" by simp_all
  with assms show "y \<in> {0..<n - 1}" unfolding x(2) by (auto simp: renumber_index_def)
next
  fix y assume y: "y \<in> {0..<n - 1}"
  show "y \<in> renumber_index i ` ({0..<n} - {i})"
  proof (cases "y < i")
    case True
    with assms have "y \<in> {0..<n} - {i}" "y = renumber_index i y"
      by (auto simp: renumber_index_def)
    then show ?thesis by (rule image_eqI [rotated])
  next
    case False
    with y have "Suc y \<in> {0..<n} - {i}" "y = renumber_index i (Suc y)"
      by (auto simp: renumber_index_def)
    then show ?thesis by (rule image_eqI [rotated])
  qed
qed

lemma renumber_step:
  assumes ok: "arrays_ok L s1" and fresh: "i \<notin> L"
    and f1: "sl_vertices s' = sl_vertices s1"
      "sl_index s' = map (renumber_index i) (sl_index s1)"
    and f2: "sl_mesh_vertices s' = sl_mesh_vertices s1"
      "sl_mesh_vertices_index s' = map (renumber_tag i) (sl_mesh_vertices_index s1)"
    and f3: "sl_mesh_triangles s' = sl_mesh_triangles s1"
      "sl_mesh_triangles_index s' = map (renumber_tag i) (sl_mesh_triangles_index s1)"
    and f4: "sl_mesh_triangles_colors s' = sl_mesh_triangles_colors s1"
      "sl_mesh_triangles_z_order s' = sl_mesh_triangles_z_order s1"
  shows "arrays_ok (renumber_index i ` L) s'"
proof -
  from ok have len: "length (sl_index s1) = length (sl_vertices s1)"
      "length (sl_mesh_vertices_index s1) = length (sl_mesh_vertices s1)"
      "length (sl_mesh_triangles_index s1) = length (sl_mesh_triangles s1)"
      "length (sl_mesh_triangles_colors s1) = length (sl_mesh_triangles s1)"
      "length (sl_mesh_triangles_z_order s1) = length (sl_mesh_triangles s1)"
    and tg: "set (sl_index s1) \<subseteq> L" "fst ` set (sl_mesh_vertices_index s1) \<subseteq> L"
      "fst ` set (sl_mesh_triangles_index s1) \<subseteq> L"
    and blocks: "\<And>j. j \<in> L \<Longrightarrow> block_ok s1 j"
    unfolding arrays_ok_def by blast+
  have same: "renumber_index i x = renumber_index i j \<longleftrightarrow> x = j" if "x \<in> L" "j \<in> L" for x j
    using renumber_inj [of x i j] that fresh by blast
  have block: "block_ok s' (renumber_index i j)" if j: "j \<in> L" for j
  proof -
    note sj = block_span [OF blocks [OF j]]
    show ?thesis
    proof (rule block_okI(1) [OF sj(1)])
      fix p
      show "(p < length (sl_mesh_vertices_index s') \<and>
            fst (sl_mesh_vertices_index s' ! p) = renumber_index i j)
          \<longleftrightarrow> (block_lo s1 j \<le> p \<and> p < block_lo s1 j + block_len s1 j)"
      proof (cases "p < length (sl_mesh_vertices_index s1)")
        case True
        then have "sl_mesh_vertices_index s1 ! p \<in> set (sl_mesh_vertices_index s1)"
          by (rule nth_mem)
        with tg(2) have "fst (sl_mesh_vertices_index s1 ! p) \<in> L" by blast
        from same [OF this j] True sj(3) [of p] show ?thesis
          unfolding f2 by (simp add: renumber_tag_def)
      next
        case False
        with sj(2) show ?thesis unfolding f2 by simp
      qed
    next
      fix t g
      assume m: "(t, g) \<in> set (zip (sl_mesh_triangles s') (sl_mesh_triangles_index s'))"
        and g: "fst g = renumber_index i j"
      from m obtain g0 where
        g0: "(t, g0) \<in> set (zip (sl_mesh_triangles s1) (sl_mesh_triangles_index s1))"
        and gg: "g = renumber_tag i g0"
        unfolding f3 zip_map2 by auto
      from g0 have "g0 \<in> set (sl_mesh_triangles_index s1)" by (rule set_zip_rightD)
      with tg(3) have "fst g0 \<in> L" by blast
      from same [OF this j] g have "fst g0 = j" unfolding gg by (simp add: renumber_tag_def)
      from block_triangles [OF blocks [OF j] g0 this]
      show "tri_within (int (block_lo s1 j)) (int (block_lo s1 j + block_len s1 j)) t" .
    qed
  qed
  show ?thesis
    unfolding arrays_ok_def
  proof (intro conjI ballI)
    show "length (sl_index s') = length (sl_vertices s')" unfolding f1 using len(1) by simp
    show "length (sl_mesh_vertices_index s') = length (sl_mesh_vertices s')"
      unfolding f2 using len(2) by simp
    show "length (sl_mesh_triangles_index s') = length (sl_mesh_triangles s')"
      unfolding f3 using len(3) by simp
    show "length (sl_mesh_triangles_colors s') = length (sl_mesh_triangles s')"
      unfolding f3 f4 using len(4) by simp
    show "length (sl_mesh_triangles_z_order s') = length (sl_mesh_triangles s')"
      unfolding f3 f4 using len(5) by simp
    show "set (sl_index s') \<subseteq> renumber_index i ` L" unfolding f1 using tg(1) by auto
    show "fst ` set (sl_mesh_vertices_index s') \<subseteq> renumber_index i ` L"
      unfolding f2 using tg(2) by (auto simp: renumber_tag_def)
    show "fst ` set (sl_mesh_triangles_index s') \<subseteq> renumber_index i ` L"
      unfolding f3 using tg(3) by (auto simp: renumber_tag_def)
    fix j' assume "j' \<in> renumber_index i ` L"
    then obtain j where "j \<in> L" "j' = renumber_index i j" by blast
    with block show "block_ok s' j'" by simp
  qed
qed

lemma arrays_ok_shapes:
  "arrays_ok L (s\<lparr>sl_shapes := x\<rparr>) = arrays_ok L s"
  "arrays_ok L (s\<lparr>sl_z_order := y\<rparr>) = arrays_ok L s"
  by (simp_all add: arrays_ok_def block_ok_def)

lemma consistent_empty: "consistent remove_all"
  by (simp add: consistent_def remove_all_def)

lemma add_consistent:
  assumes con: "consistent s" and sh: "shape_ok sh" and r: "add sh s = Inr s'"
  shows "consistent s'"
proof -
  from con have zl: "length (sl_z_order s) = length (sl_shapes s)"
    and ao: "arrays_ok {0..<length (sl_shapes s)} s"
    unfolding consistent_arrays by blast+
  define s0 where "s0 = s\<lparr>sl_shapes := sl_shapes s @ [sh],
      sl_z_order := sl_z_order s @ [sh_z_order sh]\<rparr>"
  have ao0: "arrays_ok {0..<length (sl_shapes s)} s0"
    unfolding s0_def arrays_ok_shapes by (rule ao)
  have fresh: "length (sl_shapes s) \<notin> {0..<length (sl_shapes s)}" by simp
  from append_step [OF ao0 fresh sh] obtain s2 where
    a: "add_meshes sh (length (sl_shapes s)) s0 = Inr s2"
    and b: "sl_shapes s2 = sl_shapes s0" "sl_z_order s2 = sl_z_order s0"
    and c: "arrays_ok (insert (length (sl_shapes s)) {0..<length (sl_shapes s)}) s2"
    by blast
  from r a have eq: "s' = s2" unfolding add_def s0_def by simp
  have n: "length (sl_shapes s2) = Suc (length (sl_shapes s))" unfolding b s0_def by simp
  have z: "length (sl_z_order s2) = Suc (length (sl_shapes s))" unfolding b s0_def using zl by simp
  from c have "arrays_ok {0..<Suc (length (sl_shapes s))} s2"
    by (simp only: atLeast0_lessThan_Suc)
  with n z show ?thesis unfolding eq consistent_arrays by simp
qed

lemma remove_consistent:
  assumes con: "consistent s" and r: "remove_one i True s = Inr s'"
  shows "consistent s'"
proof -
  from con have zl: "length (sl_z_order s) = length (sl_shapes s)"
    and ao: "arrays_ok {0..<length (sl_shapes s)} s"
    unfolding consistent_arrays by blast+
  from remove_renumber [OF r] obtain s1 where
    k: "remove_one i False s = Inr s1"
    and e: "sl_shapes s1 = sl_shapes s" "sl_z_order s1 = sl_z_order s"
    and b: "i < length (sl_shapes s1)"
    and g: "sl_shapes s' = delete_at i (sl_shapes s1)"
      "sl_z_order s' = delete_at i (sl_z_order s1)"
    and f1: "sl_vertices s' = sl_vertices s1"
      "sl_index s' = map (renumber_index i) (sl_index s1)"
    and f2: "sl_mesh_vertices s' = sl_mesh_vertices s1"
      "sl_mesh_vertices_index s' = map (renumber_tag i) (sl_mesh_vertices_index s1)"
    and f3: "sl_mesh_triangles s' = sl_mesh_triangles s1"
      "sl_mesh_triangles_index s' = map (renumber_tag i) (sl_mesh_triangles_index s1)"
    and f4: "sl_mesh_triangles_colors s' = sl_mesh_triangles_colors s1"
      "sl_mesh_triangles_z_order s' = sl_mesh_triangles_z_order s1"
    by blast
  from b have i: "i < length (sl_shapes s)" unfolding e .
  then have iL: "i \<in> {0..<length (sl_shapes s)}" by simp
  from filter_step [OF ao iL] k have a1: "arrays_ok ({0..<length (sl_shapes s)} - {i}) s1"
    by auto
  have "i \<notin> {0..<length (sl_shapes s)} - {i}" by simp
  from renumber_step [OF a1 this f1 f2 f3 f4]
  have a2: "arrays_ok {0..<length (sl_shapes s) - 1} s'"
    unfolding renumber_image [OF i] .
  from i have n: "length (sl_shapes s') = length (sl_shapes s) - 1"
    unfolding g e delete_at_def by simp
  from i zl have z: "length (sl_z_order s') = length (sl_shapes s) - 1"
    unfolding g e delete_at_def by simp
  from a2 n z show ?thesis unfolding consistent_arrays by simp
qed

lemma edit_consistent:
  assumes con: "consistent s" and sh: "shape_ok sh" and r: "edit i sh s = Inr s'"
  shows "consistent s'"
proof -
  from con have zl: "length (sl_z_order s) = length (sl_shapes s)"
    and ao: "arrays_ok {0..<length (sl_shapes s)} s"
    unfolding consistent_arrays by blast+
  define su where "su = s\<lparr>sl_shapes := (sl_shapes s)[i := sh]\<rparr>"
  from r have i: "i < length (sl_shapes s)"
    unfolding edit_def by (simp split: if_splits)
  with r obtain s1 where k: "remove_one i False su = Inr s1" and a: "add_at sh i s1 = Inr s'"
    unfolding edit_def ebind_def su_def by (auto split: sum.splits)
  have aou: "arrays_ok {0..<length (sl_shapes s)} su"
    unfolding su_def arrays_ok_shapes by (rule ao)
  from i have iL: "i \<in> {0..<length (sl_shapes s)}" by simp
  from filter_step [OF aou iL] k have e: "sl_shapes s1 = sl_shapes su"
    "sl_z_order s1 = sl_z_order su"
    and a1: "arrays_ok ({0..<length (sl_shapes s)} - {i}) s1"
    by auto
  have ls: "length (sl_shapes s1) = length (sl_shapes s)"
    "length (sl_z_order s1) = length (sl_shapes s)"
    unfolding e su_def using zl by simp_all
  define s0 where "s0 = s1\<lparr>sl_shapes := (sl_shapes s1)[i := sh],
      sl_z_order := (sl_z_order s1)[i := sh_z_order sh]\<rparr>"
  from a i have a': "add_meshes sh i s0 = Inr s'"
    unfolding add_at_def ls s0_def by simp
  have a0: "arrays_ok ({0..<length (sl_shapes s)} - {i}) s0"
    unfolding s0_def arrays_ok_shapes by (rule a1)
  have "i \<notin> {0..<length (sl_shapes s)} - {i}" by simp
  from append_step [OF a0 this sh] a' have b: "sl_shapes s' = sl_shapes s0"
    "sl_z_order s' = sl_z_order s0"
    and c: "arrays_ok (insert i ({0..<length (sl_shapes s)} - {i})) s'"
    by auto
  from iL have "insert i ({0..<length (sl_shapes s)} - {i}) = {0..<length (sl_shapes s)}"
    by blast
  with c have c': "arrays_ok {0..<length (sl_shapes s)} s'" by simp
  have n: "length (sl_shapes s') = length (sl_shapes s)" unfolding b s0_def using ls by simp
  have z: "length (sl_z_order s') = length (sl_shapes s)" unfolding b s0_def using ls by simp
  from c' n z show ?thesis unfolding consistent_arrays by simp
qed

lemma reachable_consistent: "reachable s \<Longrightarrow> consistent s"
proof (induction rule: reachable.induct)
  case reach_empty
  show ?case by (rule consistent_empty)
next
  case (reach_add s sh s')
  then show ?case by (blast intro: add_consistent)
next
  case (reach_remove s i s')
  then show ?case by (blast intro: remove_consistent)
next
  case (reach_edit s sh i s')
  then show ?case by (blast intro: edit_consistent)
qed
section \<open>The ellipse outline: the repeated vertex\<close>

lemma linspace_nth: "1 < num \<Longrightarrow> k < num \<Longrightarrow>
  linspace a b num ! k = a + real k * ((b - a) / real (num - 1))"
  by (simp add: linspace_def)

lemma length_linspace: "length (linspace a b num) = num"
  by (simp add: linspace_def)

lemma generate_ellipse_length: "length (generate_ellipse c n) = n + 1"
  by (simp add: generate_ellipse_def Let_def length_linspace)

lemma generate_ellipse_nth:
  assumes "1 < n" "k < n"
  shows "generate_ellipse (c0, c1) n ! (k + 1) =
    ((fst c0 + fst c1) / 2 + \<bar>fst c0 - (fst c0 + fst c1) / 2\<bar> * cos (real k * (2 * pi / real (n - 1))),
     (snd c0 + snd c1) / 2 + \<bar>snd c0 - (snd c0 + snd c1) / 2\<bar> * sin (real k * (2 * pi / real (n - 1))))"
  using assms by (simp add: generate_ellipse_def Let_def length_linspace linspace_nth)

lemma ellipse_first_last: "generate_ellipse c 100 ! 100 = generate_ellipse c 100 ! 1"
proof -
  obtain c0 c1 where c: "c = (c0, c1)" by (cases c)
  have a: "generate_ellipse (c0, c1) 100 ! (99 + 1) =
     ((fst c0 + fst c1) / 2 + \<bar>fst c0 - (fst c0 + fst c1) / 2\<bar> * cos (real 99 * (2 * pi / real (100 - 1))),
     (snd c0 + snd c1) / 2 + \<bar>snd c0 - (snd c0 + snd c1) / 2\<bar> * sin (real 99 * (2 * pi / real (100 - 1))))"
    by (rule generate_ellipse_nth) simp_all
  have b: "generate_ellipse (c0, c1) 100 ! (0 + 1) =
     ((fst c0 + fst c1) / 2 + \<bar>fst c0 - (fst c0 + fst c1) / 2\<bar> * cos (real 0 * (2 * pi / real (100 - 1))),
     (snd c0 + snd c1) / 2 + \<bar>snd c0 - (snd c0 + snd c1) / 2\<bar> * sin (real 0 * (2 * pi / real (100 - 1))))"
    by (rule generate_ellipse_nth) simp_all
  from a b show ?thesis unfolding c by simp
qed

lemma fill_faces_last: "last (ellipse_fill_faces 100) = (0, 100, 1)"
proof -
  have "[0..<100] = [0..<99] @ [99::nat]" by (simp add: upt_rec)
  then show ?thesis by (simp add: ellipse_fill_faces_def Let_def)
qed

lemma fill_faces_length: "length (ellipse_fill_faces 100) = 100"
  by (simp add: ellipse_fill_faces_def Let_def)

lemma signed_area_same: "signed_area a b b = 0"
  by (simp add: signed_area_def)

lemma outline_segments_length: "length (outline_segments (generate_ellipse c 100)) = 100"
  by (simp add: outline_segments_def generate_ellipse_length)

lemma proper_segments_le: "length (proper_segments (generate_ellipse c 100)) \<le> 99"
proof -
  let ?vs = "generate_ellipse c 100"
  let ?f = "\<lambda>k. (?vs ! k, ?vs ! (if k = 100 then 1 else k + 1))"
  have up: "[1..<101] = [1..<100] @ [100::nat]"
    by (simp add: upt_rec)
  have "outline_segments ?vs = map ?f [1..<100] @ [(?vs ! 100, ?vs ! 1)]"
    by (simp add: outline_segments_def generate_ellipse_length up)
  then have "proper_segments ?vs = filter (\<lambda>s. fst s \<noteq> snd s) (map ?f [1..<100])"
    by (simp add: proper_segments_def ellipse_first_last)
  moreover have "length (filter (\<lambda>s. fst s \<noteq> snd s) (map ?f [1..<100])) \<le> length (map ?f [1..<100])"
    by (rule length_filter_le)
  ultimately show ?thesis by simp
qed

lemma cos_sin_step:
  assumes "cos a = cos b" "sin a = sin b" "0 < b - a" "b - a < 2 * pi"
  shows False
proof -
  have "cos (b - a) = 1"
    using assms(1,2) by (simp add: cos_diff)
  then obtain k :: int where k: "b - a = 2 * pi * of_int k"
    using cos_one_2pi_int by (metis mult.commute mult.assoc)
  with assms(3) have "0 < real_of_int k"
    by (simp add: zero_less_mult_iff)
  then have "0 < k" by simp
  then have "1 \<le> k" by simp
  then have "1 \<le> real_of_int k" by simp
  then have "2 * pi * 1 \<le> 2 * pi * real_of_int k"
    by (intro mult_left_mono) simp_all
  with assms(4) k show False by simp
qed

lemma proper_segments_eq:
  assumes "fst c0 \<noteq> fst c1" "snd c0 \<noteq> snd c1"
  shows "length (proper_segments (generate_ellipse (c0, c1) 100)) = 99"
proof -
  let ?vs = "generate_ellipse (c0, c1) 100"
  let ?f = "\<lambda>k. (?vs ! k, ?vs ! (if k = 100 then 1 else k + 1))"
  let ?xr = "\<bar>fst c0 - (fst c0 + fst c1) / 2\<bar>"
  let ?yr = "\<bar>snd c0 - (snd c0 + snd c1) / 2\<bar>"
  have xr: "?xr \<noteq> 0" and yr: "?yr \<noteq> 0" using assms by (auto simp: field_simps)
  have up: "[1..<101] = [1..<100] @ [100::nat]"
    by (simp add: upt_rec)
  have "outline_segments ?vs = map ?f [1..<100] @ [(?vs ! 100, ?vs ! 1)]"
    by (simp add: outline_segments_def generate_ellipse_length up)
  then have ps: "proper_segments ?vs = filter (\<lambda>s. fst s \<noteq> snd s) (map ?f [1..<100])"
    by (simp add: proper_segments_def ellipse_first_last)
  have ne: "fst (?f k) \<noteq> snd (?f k)" if k: "1 \<le> k" "k < 100" for k
  proof
    assume eq: "fst (?f k) = snd (?f k)"
    from k obtain j where j: "k = j + 1" "j < 99"
      by (cases k) simp_all
    have v1: "?vs ! (j + 1) = ((fst c0 + fst c1) / 2 + ?xr * cos (real j * (2 * pi / real (100 - 1))),
        (snd c0 + snd c1) / 2 + ?yr * sin (real j * (2 * pi / real (100 - 1))))"
      using j by (intro generate_ellipse_nth) simp_all
    have v2: "?vs ! ((j + 1) + 1) = ((fst c0 + fst c1) / 2 + ?xr * cos (real (j + 1) * (2 * pi / real (100 - 1))),
        (snd c0 + snd c1) / 2 + ?yr * sin (real (j + 1) * (2 * pi / real (100 - 1))))"
      using j by (intro generate_ellipse_nth) simp_all
    from eq j have "?vs ! (j + 1) = ?vs ! ((j + 1) + 1)" by simp
    with v1 v2 xr yr have cs: "cos (real j * (2 * pi / 99)) = cos (real (j + 1) * (2 * pi / 99))"
      "sin (real j * (2 * pi / 99)) = sin (real (j + 1) * (2 * pi / 99))"
      by simp_all
    have d: "real (j + 1) * (2 * pi / 99) - real j * (2 * pi / 99) = 2 * pi / 99"
      by (simp add: algebra_simps)
    have "0 < 2 * pi / 99" "2 * pi / 99 < 2 * pi" by simp_all
    with cs d show False using cos_sin_step by metis
  qed
  have "filter (\<lambda>s. fst s \<noteq> snd s) (map ?f [1..<100]) = map ?f [1..<100]"
    using ne by (intro filter_True) auto
  with ps show ?thesis by simp
qed

text \<open>
  C10. For every pair of corner points the 100 sampled angles run from 0 to \<open>2\<pi>\<close>
  inclusive, so boundary vertex 100 is boundary vertex 1 again. The last triangle of the
  fan, \<open>[0, 100, 1]\<close>, therefore has area zero, and of the 100 segments of the closed
  outline the closing one is a point: at most 99 are proper segments, and exactly 99 when
  the two corners differ in both coordinates.
\<close>

theorem ellipse_outline_repeats_first_vertex:
  "length (linspace 0 (2 * pi) ellipse_segments) = 100 \<and>
   linspace 0 (2 * pi) ellipse_segments ! 0 = 0 \<and>
   linspace 0 (2 * pi) ellipse_segments ! 99 = 2 * pi \<and>
   length (generate_ellipse (c0, c1) ellipse_segments) = 101 \<and>
   generate_ellipse (c0, c1) ellipse_segments ! 100 =
     generate_ellipse (c0, c1) ellipse_segments ! 1 \<and>
   length (ellipse_fill_faces ellipse_segments) = 100 \<and>
   last (ellipse_fill_faces ellipse_segments) = (0, 100, 1) \<and>
   face_area (generate_ellipse (c0, c1) ellipse_segments)
     (last (ellipse_fill_faces ellipse_segments)) = 0 \<and>
   length (outline_segments (generate_ellipse (c0, c1) ellipse_segments)) = 100 \<and>
   length (proper_segments (generate_ellipse (c0, c1) ellipse_segments)) \<le> 99 \<and>
   (fst c0 \<noteq> fst c1 \<and> snd c0 \<noteq> snd c1 \<longrightarrow>
      length (proper_segments (generate_ellipse (c0, c1) ellipse_segments)) = 99)"
proof -
  have t0: "linspace 0 (2 * pi) 100 ! 0 = 0"
    by (simp add: linspace_nth)
  have t99: "linspace 0 (2 * pi) 100 ! 99 = 2 * pi"
    by (simp add: linspace_nth)
  have area: "face_area (generate_ellipse (c0, c1) 100) (0, 100, 1) = 0"
    by (simp add: face_area_def ellipse_first_last signed_area_same)
  show ?thesis
    unfolding ellipse_segments_def
    using t0 t99 area
    by (simp add: length_linspace generate_ellipse_length ellipse_first_last
        fill_faces_length fill_faces_last outline_segments_length proper_segments_le
        proper_segments_eq)
qed

theorem ellipse_outline_repeats_first_vertex_witness:
  "generate_ellipse ((0, 0), (2, 4)) ellipse_segments ! 100 =
     generate_ellipse ((0, 0), (2, 4)) ellipse_segments ! 1 \<and>
   face_area (generate_ellipse ((0, 0), (2, 4)) ellipse_segments)
     (last (ellipse_fill_faces ellipse_segments)) = 0 \<and>
   length (proper_segments (generate_ellipse ((0, 0), (2, 4)) ellipse_segments)) = 99"
proof -
  have distinct_corners: "fst (0::real, 0::real) \<noteq> fst (2::real, 4::real) \<and>
      snd (0::real, 0::real) \<noteq> snd (2::real, 4::real)"
    by simp
  from ellipse_outline_repeats_first_vertex [of "(0, 0)" "(2, 4)"] distinct_corners
  show ?thesis by blast
qed

end
